theory Spec2Isabelle
  imports Complex_Main
begin

section \<open>The discrete delta kernel of generateBNQ.inl\<close>

text \<open>
  The kernel is embedded twice.  In the first embedding \<^verbatim>\<open>PetscReal\<close> is the type
  \<open>real\<close>: this is the kernel in exact real arithmetic, without rounding, infinities
  or NaN.  The two square-root branches of \<^verbatim>\<open>dhRoma\<close> are named so that they can be
  evaluated at the junction radii; \<open>dhRoma\<close> itself follows the source line by line
  (\<^verbatim>\<open>r = fabs(x)/h\<close>, then the three-way test in the order of the code).  The second
  embedding, further down, keeps the infinities and the NaN of IEEE doubles.
\<close>

definition dhRoma_middle :: "real \<Rightarrow> real \<Rightarrow> real" where
  "dhRoma_middle r h =
     1.0 / (6 * h) * (5.0 - 3.0 * r - sqrt (-3.0 * (1 - r) * (1 - r) + 1.0))"

definition dhRoma_inner :: "real \<Rightarrow> real \<Rightarrow> real" where
  "dhRoma_inner r h = 1.0 / (3 * h) * (1.0 + sqrt (-3.0 * r * r + 1.0))"

definition dhRoma :: "real \<Rightarrow> real \<Rightarrow> real" where
  "dhRoma x h =
     (let r = \<bar>x\<bar> / h in
      if r > 1.5 then 0.0
      else if r > 0.5 \<and> r \<le> 1.5 then dhRoma_middle r h
      else dhRoma_inner r h)"

definition delta :: "real \<Rightarrow> real \<Rightarrow> real \<Rightarrow> real" where
  "delta x y h = dhRoma x h * dhRoma y h"

subsection \<open>The kernel on doubles with infinities and NaN\<close>

text \<open>
  A \<^verbatim>\<open>PetscReal\<close> as an IEEE double: a finite value, one of the two infinities, or NaN.
  An arithmetic operation on finite operands delivers its exact result through \<open>fp_of\<close>:
  the result is rounded by \<open>rnd\<close> (rounding to a double, subnormal ones included, as if
  the exponent had no upper bound) and becomes an infinity when the rounded value lies
  beyond the largest double \<open>DBL_MAX\<close>.  The operations on infinities and NaN follow IEEE 754: infinity
  times zero, infinity minus infinity, zero over zero, infinity over infinity and the
  square root of a negative number are NaN, and every comparison with NaN is false.
  The sign of a zero is not modelled; it only matters for a division by zero, and the
  divisors of \<^verbatim>\<open>dhRoma\<close> are \<open>h\<close>, \<open>6*h\<close> and \<open>3*h\<close>.  The arguments \<open>x\<close> and \<open>h\<close> of the
  function are finite doubles.
\<close>

datatype fp = Finite real | PosInf | NegInf | NaN

definition DBL_MAX :: real where
  "DBL_MAX = (2 - 1 / 2 ^ 52) * 2 ^ 1023"

definition fp_of :: "(real \<Rightarrow> real) \<Rightarrow> real \<Rightarrow> fp" where
  "fp_of rnd v =
     (if rnd v > DBL_MAX then PosInf
      else if rnd v < - DBL_MAX then NegInf
      else Finite (rnd v))"

fun fp_sgn :: "fp \<Rightarrow> real" where
  "fp_sgn (Finite a) = sgn a"
| "fp_sgn PosInf = 1"
| "fp_sgn NegInf = -1"
| "fp_sgn NaN = 0"

text \<open>The infinity of the given sign; NaN when the sign is that of a zero.\<close>

definition fp_inf :: "real \<Rightarrow> fp" where
  "fp_inf sg = (if sg > 0 then PosInf else if sg < 0 then NegInf else NaN)"

fun fp_mul :: "(real \<Rightarrow> real) \<Rightarrow> fp \<Rightarrow> fp \<Rightarrow> fp" where
  "fp_mul rnd (Finite a) (Finite b) = fp_of rnd (a * b)"
| "fp_mul rnd NaN b = NaN"
| "fp_mul rnd a NaN = NaN"
| "fp_mul rnd a b = fp_inf (fp_sgn a * fp_sgn b)"

fun fp_div :: "(real \<Rightarrow> real) \<Rightarrow> fp \<Rightarrow> fp \<Rightarrow> fp" where
  "fp_div rnd (Finite a) (Finite b) = (if b = 0 then fp_inf (sgn a) else fp_of rnd (a / b))"
| "fp_div rnd NaN b = NaN"
| "fp_div rnd a NaN = NaN"
| "fp_div rnd (Finite a) b = Finite 0"
| "fp_div rnd a (Finite b) = fp_inf (fp_sgn a * (if b < 0 then -1 else 1))"
| "fp_div rnd a b = NaN"

fun fp_add :: "(real \<Rightarrow> real) \<Rightarrow> fp \<Rightarrow> fp \<Rightarrow> fp" where
  "fp_add rnd (Finite a) (Finite b) = fp_of rnd (a + b)"
| "fp_add rnd NaN b = NaN"
| "fp_add rnd a NaN = NaN"
| "fp_add rnd PosInf NegInf = NaN"
| "fp_add rnd NegInf PosInf = NaN"
| "fp_add rnd PosInf b = PosInf"
| "fp_add rnd a PosInf = PosInf"
| "fp_add rnd NegInf b = NegInf"
| "fp_add rnd a NegInf = NegInf"

fun fp_neg :: "fp \<Rightarrow> fp" where
  "fp_neg (Finite a) = Finite (- a)"
| "fp_neg PosInf = NegInf"
| "fp_neg NegInf = PosInf"
| "fp_neg NaN = NaN"

definition fp_sub :: "(real \<Rightarrow> real) \<Rightarrow> fp \<Rightarrow> fp \<Rightarrow> fp" where
  "fp_sub rnd a b = fp_add rnd a (fp_neg b)"

fun fp_sqrt :: "(real \<Rightarrow> real) \<Rightarrow> fp \<Rightarrow> fp" where
  "fp_sqrt rnd (Finite a) = (if a < 0 then NaN else Finite (rnd (sqrt a)))"
| "fp_sqrt rnd PosInf = PosInf"
| "fp_sqrt rnd NegInf = NaN"
| "fp_sqrt rnd NaN = NaN"

fun fp_fabs :: "fp \<Rightarrow> fp" where
  "fp_fabs (Finite a) = Finite \<bar>a\<bar>"
| "fp_fabs PosInf = PosInf"
| "fp_fabs NegInf = PosInf"
| "fp_fabs NaN = NaN"

fun fp_less :: "fp \<Rightarrow> fp \<Rightarrow> bool" where
  "fp_less (Finite a) (Finite b) = (a < b)"
| "fp_less NaN b = False"
| "fp_less a NaN = False"
| "fp_less a NegInf = False"
| "fp_less PosInf b = False"
| "fp_less a b = True"

fun fp_le :: "fp \<Rightarrow> fp \<Rightarrow> bool" where
  "fp_le (Finite a) (Finite b) = (a \<le> b)"
| "fp_le NaN b = False"
| "fp_le a NaN = False"
| "fp_le NegInf b = True"
| "fp_le a PosInf = True"
| "fp_le a b = False"

fun fp_finite :: "fp \<Rightarrow> bool" where
  "fp_finite (Finite a) = True"
| "fp_finite PosInf = False"
| "fp_finite NegInf = False"
| "fp_finite NaN = False"

text \<open>
  The arguments of the two square roots, \<^verbatim>\<open>-3.0*(1-r)*(1-r) + 1.0\<close> and
  \<^verbatim>\<open>-3.0*r*r + 1.0\<close>, with the operations in the order in which C++ evaluates them.
\<close>

definition radicand_middle :: "(real \<Rightarrow> real) \<Rightarrow> fp \<Rightarrow> fp" where
  "radicand_middle rnd r =
     fp_add rnd
       (fp_mul rnd (fp_mul rnd (Finite (-3.0)) (fp_sub rnd (Finite 1) r)) (fp_sub rnd (Finite 1) r))
       (Finite 1.0)"

definition radicand_inner :: "(real \<Rightarrow> real) \<Rightarrow> fp \<Rightarrow> fp" where
  "radicand_inner rnd r = fp_add rnd (fp_mul rnd (fp_mul rnd (Finite (-3.0)) r) r) (Finite 1.0)"

text \<open>The two return expressions of lines 7 and 9, and \<^verbatim>\<open>dhRoma\<close> itself.\<close>

definition dhRoma_fp_middle :: "(real \<Rightarrow> real) \<Rightarrow> fp \<Rightarrow> real \<Rightarrow> fp" where
  "dhRoma_fp_middle rnd r h =
     fp_mul rnd (fp_div rnd (Finite 1.0) (fp_mul rnd (Finite 6) (Finite h)))
       (fp_sub rnd (fp_sub rnd (Finite 5.0) (fp_mul rnd (Finite 3.0) r))
                   (fp_sqrt rnd (radicand_middle rnd r)))"

definition dhRoma_fp_inner :: "(real \<Rightarrow> real) \<Rightarrow> fp \<Rightarrow> real \<Rightarrow> fp" where
  "dhRoma_fp_inner rnd r h =
     fp_mul rnd (fp_div rnd (Finite 1.0) (fp_mul rnd (Finite 3) (Finite h)))
       (fp_add rnd (Finite 1.0) (fp_sqrt rnd (radicand_inner rnd r)))"

definition dhRoma_fp :: "(real \<Rightarrow> real) \<Rightarrow> real \<Rightarrow> real \<Rightarrow> fp" where
  "dhRoma_fp rnd x h =
     (let r = fp_div rnd (fp_fabs (Finite x)) (Finite h) in
      if fp_less (Finite 1.5) r then Finite 0.0
      else if fp_less (Finite 0.5) r \<and> fp_le r (Finite 1.5) then dhRoma_fp_middle rnd r h
      else dhRoma_fp_inner rnd r h)"

text \<open>
  What the theorems assume of the rounding: it is monotone and leaves the multiples of
  \<open>1/4\<close> up to \<open>8\<close> unchanged.  Rounding to the nearest double has both properties, and
  so has \<open>exact\<close>, which does not round at all.
\<close>

definition rounding :: "(real \<Rightarrow> real) \<Rightarrow> bool" where
  "rounding rnd \<longleftrightarrow>
     mono rnd \<and> (\<forall>k::int. \<bar>k\<bar> \<le> 32 \<longrightarrow> rnd (of_int k / 4) = of_int k / 4)"

definition exact :: "real \<Rightarrow> real" where
  "exact v = v"


section \<open>The solver state read and written by the builder\<close>

text \<open>
  \<^verbatim>\<open>TairaColoniusSolver<2>::generateBNQ\<close> reads the members of the solver object and
  writes the two matrices \<^verbatim>\<open>BNQ\<close> and \<^verbatim>\<open>QT\<close>.  The members it touches form the record
  \<open>solver\<close>; the class declaration is not among the source files, so the record lists
  the members by the way the function uses them.

  \<^item> \<^verbatim>\<open>PetscInt\<close> is modelled by \<open>int\<close> (no overflow; signed overflow is undefined in the
    program), the non-negative counters \<^verbatim>\<open>localIdx\<close> and \<^verbatim>\<open>procIdx\<close> by \<open>nat\<close>.
  \<^item> The arrays that are only read (\<^verbatim>\<open>mesh->x\<close>, \<^verbatim>\<open>mesh->y\<close>, \<^verbatim>\<open>x\<close>, \<^verbatim>\<open>y\<close>,
    \<^verbatim>\<open>bodyGlobalIndices\<close>, \<^verbatim>\<open>numBoundaryPointsOnProcess\<close>, \<^verbatim>\<open>pGlobalIdx\<close>,
    \<^verbatim>\<open>boundaryPointIndices\<close>) are functions from the index to the stored value; their
    bounds are not part of the model.  The members \<^verbatim>\<open>x\<close>, \<^verbatim>\<open>y\<close> and \<^verbatim>\<open>h\<close> are called
    \<open>x_body\<close>, \<open>y_body\<close> and \<open>h_grid\<close>.
  \<^item> The result of \<^verbatim>\<open>DMDAGetCorners\<close> for a grid is the record \<open>corners\<close>.
  \<^item> The arrays \<^verbatim>\<open>d_nnz\<close> and \<^verbatim>\<open>o_nnz\<close> that are written are lists of the allocated
    length; a write past the end is the error \<open>OutOfBounds\<close>.
  \<^item> A matrix is a partial map from (row, column) to the stored value.  The calls
    \<^verbatim>\<open>MatSetValues\<close> and \<^verbatim>\<open>MatSetValue\<close> issued by pass 2 are recorded in the order in
    which they are made (\<open>mat_call\<close>); with \<^verbatim>\<open>INSERT_VALUES\<close> a later value for the same
    position replaces the earlier one.
  \<^item> The model is the view of one process.  The error code returned by a call into
    PETSc is an input: \<open>petsc line n\<close> is the code returned by the call on the given
    line of \<^verbatim>\<open>generateBNQ.inl\<close>; for the calls inside the loops of pass 2, \<open>n\<close> is the
    number of insertion calls made before it, for the others \<open>n = 0\<close>.  A code other
    than \<open>0\<close> makes \<^verbatim>\<open>CHKERRV\<close> return from the function; the result is then the error
    \<open>PetscError line\<close>.
\<close>

datatype build_error = OutOfBounds | PetscError nat

type_synonym petsc_codes = "nat \<Rightarrow> nat \<Rightarrow> int"

definition CHKERRV :: "int \<Rightarrow> nat \<Rightarrow> build_error + 'a \<Rightarrow> build_error + 'a" where
  "CHKERRV ierr line rest = (if ierr \<noteq> 0 then Inl (PetscError line) else rest)"

text \<open>The runs in which no call into PETSc reports an error.\<close>

definition petsc_ok :: "petsc_codes \<Rightarrow> bool" where
  "petsc_ok petsc \<longleftrightarrow> (\<forall>line n. petsc line n = 0)"

text \<open>A run of calls that only report an error code, checked one after the other.\<close>

definition CHKERRV_lines :: "petsc_codes \<Rightarrow> nat list \<Rightarrow> build_error + 'a \<Rightarrow> build_error + 'a" where
  "CHKERRV_lines petsc lines rest = foldr (\<lambda>line. CHKERRV (petsc line 0) line) lines rest"

record corners =
  mstart :: int
  nstart :: int
  m_size :: int
  n_size :: int

datatype mat_call =
    MatSetValues int "int list" "real list"
  | MatSetValue int int real

type_synonym Mat = "int \<times> int \<Rightarrow> real option"

record solver =
  numProcs :: nat
  qStart :: int
  qEnd :: int
  lambdaStart :: int
  lambdaEnd :: int
  pGlobalIdx :: "int \<Rightarrow> int \<Rightarrow> real"
  uda :: corners
  vda :: corners
  mesh_x :: "int \<Rightarrow> real"
  mesh_y :: "int \<Rightarrow> real"
  boundaryPointIndices :: "nat \<Rightarrow> int list"
  x_body :: "int \<Rightarrow> real"
  y_body :: "int \<Rightarrow> real"
  h_grid :: real
  bodyGlobalIndices :: "int \<Rightarrow> int"
  numBoundaryPointsOnProcess :: "nat \<Rightarrow> int"
  BN :: "int \<Rightarrow> real"
  BNQ :: Mat
  QT :: Mat

text \<open>
  The conversion of a \<^verbatim>\<open>PetscReal\<close> to a \<^verbatim>\<open>PetscInt\<close> by assignment
  (\<^verbatim>\<open>cols[0] = pGlobalIdx[j][i]\<close>, where \<^verbatim>\<open>pGlobalIdx\<close> is a \<^verbatim>\<open>PetscReal **\<close>, and
  \<^verbatim>\<open>value = h*delta(...)\<close>, where \<^verbatim>\<open>value\<close> is declared \<^verbatim>\<open>PetscInt\<close>) discards the
  fractional part.
\<close>

definition PetscInt_of_real :: "real \<Rightarrow> int" where
  "PetscInt_of_real v = (if 0 \<le> v then \<lfloor>v\<rfloor> else \<lceil>v\<rceil>)"

text \<open>
  Modelled from the spec: \<^verbatim>\<open>countNumNonZeros\<close> is called by the builder but is not
  among the source files.  The spec says that pass 1 counts the nonzeros of the
  pressure-gradient block of a row and splits the count into local (column owned by
  this process) and remote.  The function returns the pair that the call stores
  through its two reference parameters.
\<close>

definition countNumNonZeros :: "int list \<Rightarrow> nat \<Rightarrow> int \<Rightarrow> int \<Rightarrow> int \<times> int" where
  "countNumNonZeros cols numCols rowStart rowEnd =
     (int (length (filter (\<lambda>c. rowStart \<le> c \<and> c < rowEnd) (take numCols cols))),
      int (length (filter (\<lambda>c. \<not> (rowStart \<le> c \<and> c < rowEnd)) (take numCols cols))))"

text \<open>A \<^verbatim>\<open>for\<close> loop whose body can fail: the first failure ends the loop.\<close>

fun fold_err :: "('a \<Rightarrow> 's \<Rightarrow> build_error + 's) \<Rightarrow> 'a list \<Rightarrow> 's \<Rightarrow> build_error + 's" where
  "fold_err f [] st = Inr st"
| "fold_err f (a # as) st = (case f a st of Inl e \<Rightarrow> Inl e | Inr st' \<Rightarrow> fold_err f as st')"


section \<open>Pass 1: the number of nonzeros of each row\<close>

type_synonym nnz_arrays = "int list \<times> int list"

text \<open>The body of the innermost loop for a U row (lines 66--70) and a V row (lines 93--97).\<close>

definition count_point_U ::
  "'a solver_scheme \<Rightarrow> real \<Rightarrow> real \<Rightarrow> nat \<Rightarrow> nat \<Rightarrow> int \<Rightarrow> nnz_arrays \<Rightarrow> nnz_arrays" where
  "count_point_U s xCoord yCoord localIdx procIdx l = (\<lambda>(d_nnz, o_nnz).
     if \<bar>xCoord - x_body s l\<bar> < 1.5 * h_grid s \<and> \<bar>yCoord - y_body s l\<bar> < 1.5 * h_grid s then
       (let col = bodyGlobalIndices s l in
        if col \<ge> lambdaStart s \<and> col < lambdaEnd s
        then (d_nnz[localIdx := d_nnz ! localIdx + 1], o_nnz)
        else (d_nnz, o_nnz[localIdx := o_nnz ! localIdx + 1]))
     else (d_nnz, o_nnz))"

definition count_point_V ::
  "'a solver_scheme \<Rightarrow> real \<Rightarrow> real \<Rightarrow> nat \<Rightarrow> nat \<Rightarrow> int \<Rightarrow> nnz_arrays \<Rightarrow> nnz_arrays" where
  "count_point_V s xCoord yCoord localIdx procIdx l = (\<lambda>(d_nnz, o_nnz).
     if \<bar>xCoord - x_body s l\<bar> < 1.5 * h_grid s \<and> \<bar>yCoord - y_body s l\<bar> < 1.5 * h_grid s then
       (let col = bodyGlobalIndices s l + numBoundaryPointsOnProcess s procIdx in
        if col \<ge> lambdaStart s \<and> col < lambdaEnd s
        then (d_nnz[localIdx := d_nnz ! localIdx + 1], o_nnz)
        else (d_nnz, o_nnz[localIdx := o_nnz ! localIdx + 1]))
     else (d_nnz, o_nnz))"

text \<open>
  The body of the loop over \<open>i\<close>: the gradient part stores the two counts of
  \<^verbatim>\<open>countNumNonZeros\<close> in \<^verbatim>\<open>d_nnz[localIdx]\<close> and \<^verbatim>\<open>o_nnz[localIdx]\<close>, the loops over the
  processes and their body points increment them, and \<^verbatim>\<open>localIdx\<close> advances.
\<close>

definition count_row_U ::
  "'a solver_scheme \<Rightarrow> real \<Rightarrow> int \<Rightarrow> int \<Rightarrow> nat \<times> nnz_arrays \<Rightarrow> build_error + nat \<times> nnz_arrays" where
  "count_row_U s yCoord j i = (\<lambda>(localIdx, d_nnz, o_nnz).
     let xCoord = mesh_x s (i + 1);
         cols = [PetscInt_of_real (pGlobalIdx s j i), PetscInt_of_real (pGlobalIdx s j (i + 1))]
     in
       if localIdx < length d_nnz \<and> localIdx < length o_nnz then
         let (d0, o0) = countNumNonZeros cols 2 (lambdaStart s) (lambdaEnd s) in
         Inr (localIdx + 1,
              fold (\<lambda>procIdx. fold (count_point_U s xCoord yCoord localIdx procIdx)
                                  (boundaryPointIndices s procIdx))
                   [0..<numProcs s]
                   (d_nnz[localIdx := d0], o_nnz[localIdx := o0]))
       else Inl OutOfBounds)"

definition count_row_V ::
  "'a solver_scheme \<Rightarrow> real \<Rightarrow> int \<Rightarrow> int \<Rightarrow> nat \<times> nnz_arrays \<Rightarrow> build_error + nat \<times> nnz_arrays" where
  "count_row_V s yCoord j i = (\<lambda>(localIdx, d_nnz, o_nnz).
     let xCoord = 0.5 * (mesh_x s i + mesh_x s (i + 1));
         cols = [PetscInt_of_real (pGlobalIdx s j i), PetscInt_of_real (pGlobalIdx s (j + 1) i)]
     in
       if localIdx < length d_nnz \<and> localIdx < length o_nnz then
         let (d0, o0) = countNumNonZeros cols 2 (lambdaStart s) (lambdaEnd s) in
         Inr (localIdx + 1,
              fold (\<lambda>procIdx. fold (count_point_V s xCoord yCoord localIdx procIdx)
                                  (boundaryPointIndices s procIdx))
                   [0..<numProcs s]
                   (d_nnz[localIdx := d0], o_nnz[localIdx := o0]))
       else Inl OutOfBounds)"

text \<open>The loops over \<open>j\<close> and \<open>i\<close> for the U grid (lines 50--75) and the V grid (lines 77--102).\<close>

definition count_U ::
  "'a solver_scheme \<Rightarrow> nat \<times> nnz_arrays \<Rightarrow> build_error + nat \<times> nnz_arrays" where
  "count_U s =
     fold_err (\<lambda>j. let yCoord = 0.5 * (mesh_y s j + mesh_y s (j + 1)) in
                fold_err (count_row_U s yCoord j)
                  [mstart (uda s) .. mstart (uda s) + m_size (uda s) - 1])
       [nstart (uda s) .. nstart (uda s) + n_size (uda s) - 1]"

definition count_V ::
  "'a solver_scheme \<Rightarrow> nat \<times> nnz_arrays \<Rightarrow> build_error + nat \<times> nnz_arrays" where
  "count_V s =
     fold_err (\<lambda>j. let yCoord = mesh_y s (j + 1) in
                fold_err (count_row_V s yCoord j)
                  [mstart (vda s) .. mstart (vda s) + m_size (vda s) - 1])
       [nstart (vda s) .. nstart (vda s) + n_size (vda s) - 1]"

text \<open>
  Pass 1 starts with \<^verbatim>\<open>localIdx = 0\<close> on the two freshly allocated arrays, whose
  contents are whatever the allocator returned.  Each grid is entered after a checked
  \<^verbatim>\<open>DMDAGetCorners\<close> (lines 50 and 77).
\<close>

definition pass1 ::
  "petsc_codes \<Rightarrow> 'a solver_scheme \<Rightarrow> int list \<Rightarrow> int list \<Rightarrow>
     build_error + nat \<times> nnz_arrays" where
  "pass1 petsc s d_nnz o_nnz =
     CHKERRV (petsc 50 0) 50
       (case count_U s (0, d_nnz, o_nnz) of
          Inl e \<Rightarrow> Inl e
        | Inr st \<Rightarrow> CHKERRV (petsc 77 0) 77 (count_V s st))"


section \<open>Pass 2: the values of each row\<close>

text \<open>\<^verbatim>\<open>PetscReal values[2] = {-1.0, 1.0}\<close> (line 28).\<close>

definition values_G :: "real list" where
  "values_G = [-1.0, 1.0]"

text \<open>
  The body of the innermost loop for a U row (lines 134--139) and a V row (lines
  163--168).  The local \<^verbatim>\<open>value\<close> is declared \<^verbatim>\<open>PetscInt\<close> (line 27), so the product
  \<^verbatim>\<open>h*delta(...)\<close> is converted to an integer before it is passed to \<^verbatim>\<open>MatSetValue\<close>.
\<close>

definition fill_point_U ::
  "petsc_codes \<Rightarrow> 'a solver_scheme \<Rightarrow> real \<Rightarrow> real \<Rightarrow> int \<Rightarrow> nat \<Rightarrow> int \<Rightarrow>
     mat_call list \<Rightarrow> build_error + mat_call list" where
  "fill_point_U petsc s xCoord yCoord row procIdx l calls =
     (if \<bar>xCoord - x_body s l\<bar> < 1.5 * h_grid s \<and> \<bar>yCoord - y_body s l\<bar> < 1.5 * h_grid s then
        (let col = bodyGlobalIndices s l;
             val = PetscInt_of_real
                     (h_grid s * delta (xCoord - x_body s l) (yCoord - y_body s l) (h_grid s))
         in CHKERRV (petsc 138 (length calls)) 138
              (Inr (calls @ [MatSetValue row col (real_of_int val)])))
      else Inr calls)"

definition fill_point_V ::
  "petsc_codes \<Rightarrow> 'a solver_scheme \<Rightarrow> real \<Rightarrow> real \<Rightarrow> int \<Rightarrow> nat \<Rightarrow> int \<Rightarrow>
     mat_call list \<Rightarrow> build_error + mat_call list" where
  "fill_point_V petsc s xCoord yCoord row procIdx l calls =
     (if \<bar>xCoord - x_body s l\<bar> < 1.5 * h_grid s \<and> \<bar>yCoord - y_body s l\<bar> < 1.5 * h_grid s then
        (let col = bodyGlobalIndices s l + numBoundaryPointsOnProcess s procIdx;
             val = PetscInt_of_real
                     (h_grid s * delta (xCoord - x_body s l) (yCoord - y_body s l) (h_grid s))
         in CHKERRV (petsc 167 (length calls)) 167
              (Inr (calls @ [MatSetValue row col (real_of_int val)])))
      else Inr calls)"

text \<open>
  The body of the loop over \<open>i\<close>: the checked \<^verbatim>\<open>MatSetValues\<close> call of the gradient part
  (lines 128 and 157), the loops over the processes and their body points, and the
  increment of \<^verbatim>\<open>localIdx\<close>.
\<close>

definition fill_row_U ::
  "petsc_codes \<Rightarrow> 'a solver_scheme \<Rightarrow> real \<Rightarrow> int \<Rightarrow> int \<Rightarrow> nat \<times> mat_call list \<Rightarrow>
     build_error + nat \<times> mat_call list" where
  "fill_row_U petsc s yCoord j i = (\<lambda>(localIdx, calls).
     let xCoord = mesh_x s (i + 1);
         row = int localIdx + qStart s;
         cols = [PetscInt_of_real (pGlobalIdx s j i), PetscInt_of_real (pGlobalIdx s j (i + 1))]
     in CHKERRV (petsc 128 (length calls)) 128
          (case fold_err (\<lambda>procIdx. fold_err (fill_point_U petsc s xCoord yCoord row procIdx)
                                       (boundaryPointIndices s procIdx))
                  [0..<numProcs s]
                  (calls @ [MatSetValues row cols values_G]) of
             Inl e \<Rightarrow> Inl e
           | Inr calls' \<Rightarrow> Inr (localIdx + 1, calls')))"

definition fill_row_V ::
  "petsc_codes \<Rightarrow> 'a solver_scheme \<Rightarrow> real \<Rightarrow> int \<Rightarrow> int \<Rightarrow> nat \<times> mat_call list \<Rightarrow>
     build_error + nat \<times> mat_call list" where
  "fill_row_V petsc s yCoord j i = (\<lambda>(localIdx, calls).
     let xCoord = 0.5 * (mesh_x s i + mesh_x s (i + 1));
         row = int localIdx + qStart s;
         cols = [PetscInt_of_real (pGlobalIdx s j i), PetscInt_of_real (pGlobalIdx s (j + 1) i)]
     in CHKERRV (petsc 157 (length calls)) 157
          (case fold_err (\<lambda>procIdx. fold_err (fill_point_V petsc s xCoord yCoord row procIdx)
                                       (boundaryPointIndices s procIdx))
                  [0..<numProcs s]
                  (calls @ [MatSetValues row cols values_G]) of
             Inl e \<Rightarrow> Inl e
           | Inr calls' \<Rightarrow> Inr (localIdx + 1, calls')))"

definition fill_U ::
  "petsc_codes \<Rightarrow> 'a solver_scheme \<Rightarrow> nat \<times> mat_call list \<Rightarrow>
     build_error + nat \<times> mat_call list" where
  "fill_U petsc s =
     fold_err (\<lambda>j. let yCoord = 0.5 * (mesh_y s j + mesh_y s (j + 1)) in
                fold_err (fill_row_U petsc s yCoord j)
                  [mstart (uda s) .. mstart (uda s) + m_size (uda s) - 1])
       [nstart (uda s) .. nstart (uda s) + n_size (uda s) - 1]"

definition fill_V ::
  "petsc_codes \<Rightarrow> 'a solver_scheme \<Rightarrow> nat \<times> mat_call list \<Rightarrow>
     build_error + nat \<times> mat_call list" where
  "fill_V petsc s =
     fold_err (\<lambda>j. let yCoord = mesh_y s (j + 1) in
                fold_err (fill_row_V petsc s yCoord j)
                  [mstart (vda s) .. mstart (vda s) + m_size (vda s) - 1])
       [nstart (vda s) .. nstart (vda s) + n_size (vda s) - 1]"

text \<open>
  Pass 2 starts again with \<^verbatim>\<open>localIdx = 0\<close>; each grid is entered after a checked
  \<^verbatim>\<open>DMDAGetCorners\<close> (lines 117 and 146).  Its result is the sequence of insertion
  calls made.
\<close>

definition pass2 :: "petsc_codes \<Rightarrow> 'a solver_scheme \<Rightarrow> build_error + mat_call list" where
  "pass2 petsc s =
     CHKERRV (petsc 117 0) 117
       (case fill_U petsc s (0, []) of
          Inl e \<Rightarrow> Inl e
        | Inr st \<Rightarrow>
            CHKERRV (petsc 146 0) 146
              (case fill_V petsc s st of
                 Inl e \<Rightarrow> Inl e
               | Inr (localIdx, calls) \<Rightarrow> Inr calls))"


section \<open>Assembly, transpose, scaling; the two specialisations\<close>

text \<open>
  The PETSc operations used at the end of the function, with their documented effect:
  \<^verbatim>\<open>MatCreate\<close> yields a matrix without entries, a call with \<^verbatim>\<open>INSERT_VALUES\<close> sets
  entries, the assembly makes the entries set so far the content of the matrix,
  \<^verbatim>\<open>MatTranspose\<close> with \<^verbatim>\<open>MAT_INITIAL_MATRIX\<close> returns a new matrix, and
  \<^verbatim>\<open>MatDiagonalScale(A, l, NULL)\<close> multiplies row \<open>r\<close> of \<open>A\<close> by \<open>l r\<close>.
\<close>

definition MatCreate :: Mat where
  "MatCreate = Map.empty"

fun MatSet :: "mat_call \<Rightarrow> Mat \<Rightarrow> Mat" where
  "MatSet (MatSetValue row col v) A = A((row, col) \<mapsto> v)"
| "MatSet (MatSetValues row cols vs) A = fold (\<lambda>(c, v) B. B((row, c) \<mapsto> v)) (zip cols vs) A"

definition MatAssembly :: "mat_call list \<Rightarrow> Mat" where
  "MatAssembly calls = fold MatSet calls MatCreate"

definition MatTranspose :: "Mat \<Rightarrow> Mat" where
  "MatTranspose A = (\<lambda>(r, c). A (c, r))"

definition MatDiagonalScale :: "Mat \<Rightarrow> (int \<Rightarrow> real) \<Rightarrow> Mat" where
  "MatDiagonalScale A l = (\<lambda>(r, c). map_option (\<lambda>v. l r * v) (A (r, c)))"

text \<open>
  A successful \<^verbatim>\<open>PetscMalloc\<close> returns a block of the requested length with arbitrary
  contents, given here by the function \<open>junk\<close>.
\<close>

definition PetscMalloc :: "nat \<Rightarrow> (nat \<Rightarrow> int) \<Rightarrow> int list" where
  "PetscMalloc len junk = map junk [0..<len]"

text \<open>
  \<^verbatim>\<open>TairaColoniusSolver<2>::generateBNQ\<close>.  Lines 33--44: the ownership range of \<^verbatim>\<open>q\<close>,
  the two count arrays of length \<^verbatim>\<open>qLocalSize\<close>, the ownership range of \<^verbatim>\<open>lambda\<close>, the
  index array.  Lines 46--102: pass 1.  Lines 105--112: the matrix is created and
  preallocated with the counts (which does not change its entries) and the count arrays
  are freed.  Lines 114--174: pass 2.  Lines 176--180: \<^verbatim>\<open>BNQ\<close> is assembled, \<^verbatim>\<open>QT\<close> is
  set to its transpose, \<^verbatim>\<open>BNQ\<close> is scaled by \<^verbatim>\<open>BN\<close>.
\<close>

definition generateBNQ2 ::
  "petsc_codes \<Rightarrow> 'a solver_scheme \<Rightarrow> (nat \<Rightarrow> int) \<Rightarrow> (nat \<Rightarrow> int) \<Rightarrow>
     build_error + 'a solver_scheme" where
  "generateBNQ2 petsc s junk_d junk_o =
     CHKERRV_lines petsc [33, 37, 38, 41, 44]
       (let qLocalSize = qEnd s - qStart s;
            d_nnz = PetscMalloc (nat qLocalSize) junk_d;
            o_nnz = PetscMalloc (nat qLocalSize) junk_o
        in case pass1 petsc s d_nnz o_nnz of
             Inl e \<Rightarrow> Inl e
           | Inr prealloc \<Rightarrow>
               CHKERRV_lines petsc [105, 106, 107, 108, 111, 112]
                 (case pass2 petsc s of
                    Inl e \<Rightarrow> Inl e
                  | Inr calls \<Rightarrow>
                      CHKERRV_lines petsc [174, 176, 177]
                        (let s1 = s\<lparr>BNQ := MatAssembly calls\<rparr> in
                         CHKERRV (petsc 179 0) 179
                           (let s2 = s1\<lparr>QT := MatTranspose (BNQ s1)\<rparr> in
                            CHKERRV (petsc 180 0) 180
                              (let s3 = s2\<lparr>BNQ := MatDiagonalScale (BNQ s2) (BN s2)\<rparr>
                               in Inr s3)))))"

text \<open>
  \<^verbatim>\<open>TairaColoniusSolver<3>::generateBNQ\<close>: the whole body is inside a comment (lines
  186--324), so the function returns at once.
\<close>

definition generateBNQ3 :: "'a solver_scheme \<Rightarrow> 'a solver_scheme" where
  "generateBNQ3 s = s"


section \<open>The rows of the operator, described without loops\<close>

text \<open>
  The following definitions describe what the two passes are meant to compute, row by
  row; the lemmas of the last sections prove that the loops above compute exactly this.
  A row belongs to a velocity face: \<open>UFace j i\<close> or \<open>VFace j i\<close>, enumerated grid by grid
  with \<open>j\<close> outermost, as the loops do.
\<close>

datatype face = UFace int int | VFace int int

definition grid :: "corners \<Rightarrow> (int \<times> int) list" where
  "grid c = concat (map (\<lambda>j. map (Pair j) [mstart c .. mstart c + m_size c - 1])
                        [nstart c .. nstart c + n_size c - 1])"

definition faces :: "'a solver_scheme \<Rightarrow> face list" where
  "faces s = map (\<lambda>(j, i). UFace j i) (grid (uda s)) @ map (\<lambda>(j, i). VFace j i) (grid (vda s))"

fun face_x :: "'a solver_scheme \<Rightarrow> face \<Rightarrow> real" where
  "face_x s (UFace j i) = mesh_x s (i + 1)"
| "face_x s (VFace j i) = 0.5 * (mesh_x s i + mesh_x s (i + 1))"

fun face_y :: "'a solver_scheme \<Rightarrow> face \<Rightarrow> real" where
  "face_y s (UFace j i) = 0.5 * (mesh_y s j + mesh_y s (j + 1))"
| "face_y s (VFace j i) = mesh_y s (j + 1)"

text \<open>The two pressure cells next to a face, as column indices.\<close>

fun adjacent_cells :: "'a solver_scheme \<Rightarrow> face \<Rightarrow> int list" where
  "adjacent_cells s (UFace j i) =
     [PetscInt_of_real (pGlobalIdx s j i), PetscInt_of_real (pGlobalIdx s j (i + 1))]"
| "adjacent_cells s (VFace j i) =
     [PetscInt_of_real (pGlobalIdx s j i), PetscInt_of_real (pGlobalIdx s (j + 1) i)]"

text \<open>All body points with their owning process, in the order of the two inner loops.\<close>

definition body_points :: "'a solver_scheme \<Rightarrow> (nat \<times> int) list" where
  "body_points s = concat (map (\<lambda>p. map (Pair p) (boundaryPointIndices s p)) [0..<numProcs s])"

text \<open>The proximity test: within 1.5 grid spacings of the face on both axes.\<close>

definition in_support :: "'a solver_scheme \<Rightarrow> face \<Rightarrow> nat \<times> int \<Rightarrow> bool" where
  "in_support s f = (\<lambda>(p, l).
     \<bar>face_x s f - x_body s l\<bar> < 1.5 * h_grid s \<and> \<bar>face_y s f - y_body s l\<bar> < 1.5 * h_grid s)"

text \<open>The body-force column of point \<open>l\<close> of process \<open>p\<close> for a U row and for a V row.\<close>

fun body_col :: "'a solver_scheme \<Rightarrow> face \<Rightarrow> nat \<times> int \<Rightarrow> int" where
  "body_col s (UFace j i) (p, l) = bodyGlobalIndices s l"
| "body_col s (VFace j i) (p, l) = bodyGlobalIndices s l + numBoundaryPointsOnProcess s p"

definition owned :: "'a solver_scheme \<Rightarrow> int \<Rightarrow> bool" where
  "owned s col \<longleftrightarrow> lambdaStart s \<le> col \<and> col < lambdaEnd s"

definition row_nnz :: "'a solver_scheme \<Rightarrow> face \<Rightarrow> int \<times> int" where
  "row_nnz s f =
     (let (d0, o0) = countNumNonZeros (adjacent_cells s f) 2 (lambdaStart s) (lambdaEnd s);
          near = filter (in_support s f) (body_points s)
      in (d0 + int (length (filter (\<lambda>pt. owned s (body_col s f pt)) near)),
          o0 + int (length (filter (\<lambda>pt. \<not> owned s (body_col s f pt)) near))))"

definition body_call :: "'a solver_scheme \<Rightarrow> int \<Rightarrow> face \<Rightarrow> nat \<times> int \<Rightarrow> mat_call" where
  "body_call s row f = (\<lambda>(p, l).
     MatSetValue row (body_col s f (p, l))
       (real_of_int (PetscInt_of_real
          (h_grid s * delta (face_x s f - x_body s l) (face_y s f - y_body s l) (h_grid s)))))"

definition row_calls :: "'a solver_scheme \<Rightarrow> int \<Rightarrow> face \<Rightarrow> mat_call list" where
  "row_calls s row f =
     MatSetValues row (adjacent_cells s f) values_G #
     map (body_call s row f) (filter (in_support s f) (body_points s))"

definition block_calls :: "'a solver_scheme \<Rightarrow> nat \<Rightarrow> face list \<Rightarrow> mat_call list" where
  "block_calls s k fs =
     concat (map (\<lambda>(n, f). row_calls s (int n + qStart s) f) (enumerate k fs))"

text \<open>Reading a recorded call: its row, its columns, the entries it sets, its kind.\<close>

fun call_row :: "mat_call \<Rightarrow> int" where
  "call_row (MatSetValues row cols vs) = row"
| "call_row (MatSetValue row col v) = row"

fun call_col :: "mat_call \<Rightarrow> int list" where
  "call_col (MatSetValues row cols vs) = cols"
| "call_col (MatSetValue row col v) = [col]"

fun call_entries :: "mat_call \<Rightarrow> (int \<times> int \<times> real) list" where
  "call_entries (MatSetValues row cols vs) = map (\<lambda>(c, v). (row, c, v)) (zip cols vs)"
| "call_entries (MatSetValue row col v) = [(row, col, v)]"

fun is_gradient_call :: "mat_call \<Rightarrow> bool" where
  "is_gradient_call (MatSetValues row cols vs) = True"
| "is_gradient_call (MatSetValue row col v) = False"

definition calls_of_row :: "int \<Rightarrow> mat_call list \<Rightarrow> mat_call list" where
  "calls_of_row row calls = filter (\<lambda>c. call_row c = row) calls"

definition inserted_in_row :: "int \<Rightarrow> mat_call list \<Rightarrow> nat" where
  "inserted_in_row row calls = length (concat (map call_entries (calls_of_row row calls)))"

text \<open>Writing one row of the two count arrays, and a run of consecutive cells of an array.\<close>

definition store_row :: "int \<times> int \<Rightarrow> nat \<times> nnz_arrays \<Rightarrow> build_error + nat \<times> nnz_arrays" where
  "store_row = (\<lambda>(a, b) (k, da, oa).
     if k < length da \<and> k < length oa then Inr (k + 1, da[k := a], oa[k := b]) else Inl OutOfBounds)"

definition overwrite :: "nat \<Rightarrow> 'a list \<Rightarrow> 'a list \<Rightarrow> 'a list" where
  "overwrite k vs xs = take k xs @ vs @ drop (k + length vs) xs"


section \<open>A small solver state\<close>

text \<open>
  One U face and one V face (rows 10 and 11), grid spacing 1, two processes with one
  body point each: point 0 sits on the U face, point 1 is far away.  In \<open>no_error\<close>
  every call into PETSc returns 0.
\<close>

definition no_error :: petsc_codes where
  "no_error = (\<lambda>line n. 0)"

definition example_solver :: solver where
  "example_solver = \<lparr> numProcs = 2, qStart = 10, qEnd = 12, lambdaStart = 0, lambdaEnd = 5,
     pGlobalIdx = (\<lambda>j i. real_of_int (2 * j + i)),
     uda = \<lparr> mstart = 0, nstart = 0, m_size = 1, n_size = 1 \<rparr>,
     vda = \<lparr> mstart = 0, nstart = 0, m_size = 1, n_size = 1 \<rparr>,
     mesh_x = (\<lambda>i. real_of_int i), mesh_y = (\<lambda>j. real_of_int j),
     boundaryPointIndices = (\<lambda>p. if p = 0 then [0] else [1]),
     x_body = (\<lambda>l. if l = 0 then 1 else 5), y_body = (\<lambda>l. if l = 0 then 1/2 else 5),
     h_grid = 1,
     bodyGlobalIndices = (\<lambda>l. if l = 0 then 4 else 7),
     numBoundaryPointsOnProcess = (\<lambda>p. 1),
     BN = (\<lambda>r. 2), BNQ = Map.empty, QT = Map.empty \<rparr>"


section \<open>Properties of the kernel\<close>

lemma sqrt_quarter: "sqrt (1/4) = 1/2"
  by (simp add: real_sqrt_divide)

lemma dhRoma_inner_half: "h > 0 \<Longrightarrow> dhRoma_inner (1/2) h = 1 / (2 * h)"
  by (simp add: dhRoma_inner_def sqrt_quarter field_simps)

lemma dhRoma_middle_half: "h > 0 \<Longrightarrow> dhRoma_middle (1/2) h = 1 / (2 * h)"
  by (simp add: dhRoma_middle_def sqrt_quarter field_simps)

lemma dhRoma_middle_edge: "dhRoma_middle (3/2) h = 0"
  by (simp add: dhRoma_middle_def sqrt_quarter field_simps)

lemma middle_radicand:
  assumes "1/2 < r" "r \<le> 3/2"
  shows "1/4 \<le> -3 * (1 - r) * (1 - r) + (1::real)"
proof -
  have "(1 - r) * (1 - r) \<le> 1/4"
  proof -
    have "\<bar>1 - r\<bar> \<le> 1/2" using assms by linarith
    then have "\<bar>1 - r\<bar> * \<bar>1 - r\<bar> \<le> (1/2) * (1/2)"
      by (intro mult_mono) simp_all
    then show ?thesis by simp
  qed
  moreover have "-3 * (1 - r) * (1 - r) = -3 * ((1 - r) * (1 - r))"
    by (simp add: algebra_simps)
  ultimately show ?thesis by linarith
qed

lemma inner_radicand:
  assumes "0 \<le> r" "r \<le> 1/2"
  shows "1/4 \<le> -3 * r * r + (1::real)"
proof -
  have "r * r \<le> (1/2) * (1/2)" using assms by (intro mult_mono) simp_all
  moreover have "-3 * r * r = -3 * (r * r)" by simp
  ultimately show ?thesis by linarith
qed

lemma radial_profile_continuous:
  assumes h: "h > 0"
  shows "continuous_on UNIV
     (\<lambda>r. if r > 3/2 then 0
          else if r > 1/2 \<and> r \<le> 3/2 then dhRoma_middle r h else dhRoma_inner r h)"
proof -
  have cm: "continuous_on A (\<lambda>r. dhRoma_middle r h)" for A
    unfolding dhRoma_middle_def by (intro continuous_intros)
  have ci: "continuous_on A (\<lambda>r. dhRoma_inner r h)" for A
    unfolding dhRoma_inner_def by (intro continuous_intros)
  have low: "continuous_on ({r. 1/2 \<le> r \<and> r \<le> 3/2} \<union> {r. r \<le> 1/2})
      (\<lambda>r. if 1/2 < r \<and> r \<le> 3/2 then dhRoma_middle r h else dhRoma_inner r h)"
  proof (rule continuous_on_If)
    show "closed {r::real. 1/2 \<le> r \<and> r \<le> 3/2}"
      by (intro closed_Collect_conj closed_Collect_le continuous_intros)
    show "closed {r::real. r \<le> 1/2}"
      by (intro closed_Collect_le continuous_intros)
    show "continuous_on {r. 1/2 \<le> r \<and> r \<le> 3/2} (\<lambda>r. dhRoma_middle r h)" by (rule cm)
    show "continuous_on {r. r \<le> 1/2} (\<lambda>r. dhRoma_inner r h)" by (rule ci)
    show "dhRoma_middle x h = dhRoma_inner x h"
      if "x \<in> {r. 1/2 \<le> r \<and> r \<le> 3/2}" "\<not> (1/2 < x \<and> x \<le> 3/2)" for x
    proof -
      from that have x: "x = 1/2" by auto
      show ?thesis unfolding x using dhRoma_middle_half[OF h] dhRoma_inner_half[OF h] by simp
    qed
    show "dhRoma_middle x h = dhRoma_inner x h"
      if "x \<in> {r. r \<le> 1/2}" "1/2 < x \<and> x \<le> 3/2" for x
      using that by auto
  qed
  have eq: "{r. 1/2 \<le> r \<and> r \<le> 3/2} \<union> {r. r \<le> 1/2} = {r::real. r \<le> 3/2}" by auto
  have "continuous_on ({r. 3/2 \<le> r} \<union> {r. r \<le> 3/2})
      (\<lambda>r. if 3/2 < r then 0
           else if 1/2 < r \<and> r \<le> 3/2 then dhRoma_middle r h else dhRoma_inner r h)"
  proof (rule continuous_on_If)
    show "closed {r::real. 3/2 \<le> r}" by (intro closed_Collect_le continuous_intros)
    show "closed {r::real. r \<le> 3/2}" by (intro closed_Collect_le continuous_intros)
    show "continuous_on {r::real. 3/2 \<le> r} (\<lambda>r. 0::real)" by simp
    show "continuous_on {r. r \<le> 3/2}
       (\<lambda>r. if 1/2 < r \<and> r \<le> 3/2 then dhRoma_middle r h else dhRoma_inner r h)"
      using low unfolding eq .
    show "0 = (if 1/2 < x \<and> x \<le> 3/2 then dhRoma_middle x h else dhRoma_inner x h)"
      if "x \<in> {r. 3/2 \<le> r}" "\<not> 3/2 < x" for x
    proof -
      from that have x: "x = 3/2" by auto
      show ?thesis unfolding x using dhRoma_middle_edge[of h] by simp
    qed
    show "0 = (if 1/2 < x \<and> x \<le> 3/2 then dhRoma_middle x h else dhRoma_inner x h)"
      if "x \<in> {r. r \<le> 3/2}" "3/2 < x" for x
      using that by auto
  qed
  moreover have "{r::real. 3/2 \<le> r} \<union> {r. r \<le> 3/2} = UNIV" by auto
  ultimately show ?thesis by simp
qed

lemma dhRoma_continuous_on:
  assumes h: "h > 0"
  shows "continuous_on UNIV (\<lambda>x. dhRoma x h)"
proof -
  define g where "g = (\<lambda>r. if r > 3/2 then 0
       else if r > 1/2 \<and> r \<le> 3/2 then dhRoma_middle r h else dhRoma_inner r h)"
  have g: "continuous_on UNIV g" unfolding g_def by (rule radial_profile_continuous[OF h])
  have eq: "(\<lambda>x. dhRoma x h) = (\<lambda>x. g (\<bar>x\<bar> / h))"
    by (simp add: dhRoma_def fun_eq_iff Let_def g_def)
  have "continuous_on UNIV (\<lambda>x. \<bar>x\<bar> / h)"
    using h by (intro continuous_intros) auto
  then show ?thesis unfolding eq
    by (rule continuous_on_compose2[OF g]) simp
qed

lemma dhRoma_middle_nonneg:
  assumes h: "h > 0" and r: "1/2 < r" "r \<le> 3/2"
  shows "0 \<le> dhRoma_middle r h"
proof -
  have "(5 - 3 * r)^2 - (-3 * (1 - r) * (1 - r) + 1) = 3 * (2 * r - 3)^2"
    by (simp add: power2_eq_square algebra_simps)
  moreover have "0 \<le> 3 * (2 * r - 3)^2" by simp
  ultimately have "-3 * (1 - r) * (1 - r) + 1 \<le> (5 - 3 * r)^2" by linarith
  then have "sqrt (-3 * (1 - r) * (1 - r) + 1) \<le> 5 - 3 * r"
    using r by (intro real_le_lsqrt) auto
  then show ?thesis using h by (simp add: dhRoma_middle_def)
qed

lemma dhRoma_inner_nonneg:
  assumes h: "h > 0" and r: "0 \<le> r" "r \<le> 1/2"
  shows "0 \<le> dhRoma_inner r h"
proof -
  have "0 \<le> sqrt (-3 * r * r + 1)" using inner_radicand[OF r] by simp
  then show ?thesis using h by (simp add: dhRoma_inner_def)
qed


lemma dhRoma_values:
  "dhRoma 0 1 = 2/3" "dhRoma 1 1 = 1/6" "dhRoma 2 1 = 0"
  by (simp_all add: dhRoma_def dhRoma_middle_def dhRoma_inner_def Let_def)


text \<open>
  Claim C4.  For every displacement \<open>x\<close> and spacing \<open>h > 0\<close>, with \<open>r = |x|/h\<close>:
  \<open>dhRoma x h\<close> is \<open>0\<close> when \<open>r > 1.5\<close>; it is
  \<open>(1/(6h)) (5 - 3r - sqrt (-3 (1-r)\<^sup>2 + 1))\<close> when \<open>0.5 < r \<le> 1.5\<close>; it is
  \<open>(1/(3h)) (1 + sqrt (-3 r\<^sup>2 + 1))\<close> when \<open>r \<le> 0.5\<close>; and the 2D kernel
  \<open>delta x y h\<close> is the product \<open>dhRoma x h * dhRoma y h\<close>.
\<close>

theorem dhRoma_branches:
  assumes "h > 0"
  shows "(\<bar>x\<bar> / h > 1.5 \<longrightarrow> dhRoma x h = 0) \<and>
         (0.5 < \<bar>x\<bar> / h \<and> \<bar>x\<bar> / h \<le> 1.5 \<longrightarrow>
            dhRoma x h = (1 / (6 * h)) * (5 - 3 * (\<bar>x\<bar> / h) - sqrt (-3 * (1 - \<bar>x\<bar> / h)\<^sup>2 + 1))) \<and>
         (\<bar>x\<bar> / h \<le> 0.5 \<longrightarrow>
            dhRoma x h = (1 / (3 * h)) * (1 + sqrt (-3 * (\<bar>x\<bar> / h)\<^sup>2 + 1))) \<and>
         delta x y h = dhRoma x h * dhRoma y h"
proof -
  have m: "-3.0 * (1 - r) * (1 - r) + 1.0 = -3 * (1 - r)\<^sup>2 + (1::real)" for r
    by (simp add: power2_eq_square algebra_simps)
  have i: "-3.0 * r * r + 1.0 = -3 * r\<^sup>2 + (1::real)" for r
    by (simp add: power2_eq_square)
  show ?thesis
    unfolding dhRoma_def dhRoma_middle_def dhRoma_inner_def delta_def Let_def m i
    by simp
qed

theorem dhRoma_branches_witness:
  "(0::real) < 1 \<and> dhRoma 2 1 = 0 \<and> dhRoma 1 1 = 1/6 \<and> dhRoma 0 1 = 2/3 \<and>
   delta 0 1 1 = dhRoma 0 1 * dhRoma 1 1"
  using dhRoma_branches[of 1 2 0] dhRoma_branches[of 1 1 0] dhRoma_branches[of 1 0 1]
  by simp


text \<open>
  Claim C7.  In exact real arithmetic and for \<open>h > 0\<close>, \<open>dhRoma\<close> is continuous at the
  junction radii: at \<open>|x|/h = 0.5\<close> the inner branch and the middle branch both have
  the value \<open>1/(2h)\<close>, at \<open>|x|/h = 1.5\<close> the middle branch has the value \<open>0\<close> of the
  outer branch, and so \<open>dhRoma (\<cdot>) h\<close> is a continuous function of the displacement.
\<close>

theorem dhRoma_junctions:
  assumes "h > 0"
  shows "dhRoma_inner 0.5 h = 1 / (2 * h) \<and> dhRoma_middle 0.5 h = 1 / (2 * h) \<and>
         dhRoma_middle 1.5 h = 0 \<and>
         dhRoma (0.5 * h) h = 1 / (2 * h) \<and> dhRoma (1.5 * h) h = 0 \<and>
         continuous_on UNIV (\<lambda>x. dhRoma x h)"
proof -
  have "dhRoma (0.5 * h) h = dhRoma_inner 0.5 h"
    using assms by (simp add: dhRoma_def Let_def)
  moreover have "dhRoma (1.5 * h) h = dhRoma_middle 1.5 h"
    using assms by (simp add: dhRoma_def Let_def)
  ultimately show ?thesis
    using dhRoma_inner_half[OF assms] dhRoma_middle_half[OF assms] dhRoma_middle_edge[of h]
      dhRoma_continuous_on[OF assms]
    by simp
qed

theorem dhRoma_junctions_witness:
  "(0::real) < 2 \<and> dhRoma_inner 0.5 2 = 1/4 \<and> dhRoma_middle 0.5 2 = 1/4 \<and>
   dhRoma_middle 1.5 2 = 0 \<and> dhRoma 1 2 = 1/4 \<and> dhRoma 3 2 = 0 \<and>
   continuous_on UNIV (\<lambda>x. dhRoma x 2)"
  using dhRoma_junctions[of 2] by simp


text \<open>
  Claim C8.  For every displacement \<open>x\<close> and every spacing \<open>h > 0\<close>, \<open>dhRoma x h \<ge> 0\<close>
  (in exact real arithmetic).
\<close>

theorem dhRoma_nonneg:
  assumes "h > 0"
  shows "0 \<le> dhRoma x h"
proof -
  have "0 \<le> \<bar>x\<bar> / h" using assms by simp
  then show ?thesis
    using dhRoma_middle_nonneg[OF assms, of "\<bar>x\<bar> / h"] dhRoma_inner_nonneg[OF assms, of "\<bar>x\<bar> / h"]
    by (simp add: dhRoma_def Let_def)
qed

theorem dhRoma_nonneg_witness: "(0::real) < 1 \<and> 0 \<le> dhRoma 1 1 \<and> dhRoma 1 1 = 1/6"
  using dhRoma_nonneg[of 1 1] dhRoma_values by simp


subsection \<open>No NaN on doubles, unless \<open>1.0/(6*h)\<close> overflows\<close>

lemma DBL_MAX_big: "8 \<le> DBL_MAX"
proof -
  have "(8::real) \<le> 1 * 2 ^ 1023" by simp
  also have "\<dots> \<le> (2 - 1 / 2 ^ 52) * 2 ^ 1023"
    by (intro mult_right_mono) simp_all
  finally show ?thesis by (simp add: DBL_MAX_def)
qed

lemma rounding_exact: "rounding exact"
  by (simp add: rounding_def exact_def mono_def)

lemma rounding_mono: "rounding rnd \<Longrightarrow> a \<le> b \<Longrightarrow> rnd a \<le> rnd b"
  by (simp add: rounding_def mono_def)

lemma rounding_fix:
  assumes "rounding rnd"
  shows "rnd 0 = 0" "rnd (1/4) = 1/4" "rnd (1/2) = 1/2" "rnd 1 = 1" "rnd (3/2) = 3/2"
    "rnd 2 = 2" "rnd (9/2) = 9/2" "rnd 5 = 5"
    "rnd (- (1/2)) = - (1/2)" "rnd (- (3/4)) = - (3/4)" "rnd (- (3/2)) = - (3/2)"
proof -
  have f: "rnd (of_int k / 4) = of_int k / 4" if "\<bar>k\<bar> \<le> 32" for k :: int
    using assms that by (simp add: rounding_def)
  show "rnd 0 = 0" using f[of 0] by simp
  show "rnd (1/4) = 1/4" using f[of 1] by simp
  show "rnd (1/2) = 1/2" using f[of 2] by simp
  show "rnd 1 = 1" using f[of 4] by simp
  show "rnd (3/2) = 3/2" using f[of 6] by simp
  show "rnd 2 = 2" using f[of 8] by simp
  show "rnd (9/2) = 9/2" using f[of 18] by simp
  show "rnd 5 = 5" using f[of 20] by simp
  show "rnd (- (1/2)) = - (1/2)" using f[of "-2"] by simp
  show "rnd (- (3/4)) = - (3/4)" using f[of "-3"] by simp
  show "rnd (- (3/2)) = - (3/2)" using f[of "-6"] by simp
qed

lemma fp_of_not_NaN: "fp_of rnd v \<noteq> NaN"
  by (simp add: fp_of_def)

lemma fp_of_bounded:
  assumes "rounding rnd" "rnd lo = lo" "rnd hi = hi" "-8 \<le> lo" "hi \<le> 8" "lo \<le> v" "v \<le> hi"
  shows "fp_of rnd v = Finite (rnd v) \<and> lo \<le> rnd v \<and> rnd v \<le> hi"
proof -
  have "lo \<le> rnd v" using rounding_mono[OF assms(1) assms(6)] assms(2) by simp
  moreover have "rnd v \<le> hi" using rounding_mono[OF assms(1) assms(7)] assms(3) by simp
  ultimately show ?thesis using assms(4,5) DBL_MAX_big by (simp add: fp_of_def)
qed

lemma fp_of_nonneg:
  assumes "rounding rnd" "0 \<le> v"
  shows "fp_of rnd v = PosInf \<or> (fp_of rnd v = Finite (rnd v) \<and> 0 \<le> rnd v)"
proof -
  have "0 \<le> rnd v" using rounding_mono[OF assms] rounding_fix(1)[OF assms(1)] by simp
  then show ?thesis using DBL_MAX_big by (simp add: fp_of_def)
qed

lemma product_bound:
  fixes a t :: real
  assumes "0 \<le> t" "t \<le> 1/2" "- (3/2) \<le> a" "a \<le> 0"
  shows "- (3/4) \<le> a * t" "a * t \<le> 0"
proof -
  have "(- a) * t \<le> (3/2) * (1/2)" using assms by (intro mult_mono) simp_all
  then show "- (3/4) \<le> a * t" by simp
  show "a * t \<le> 0" using assms by (simp add: mult_nonpos_nonneg)
qed

lemma radicand_tail:
  assumes rnd: "rounding rnd" and t: "- (1/2) \<le> t" "t \<le> 1/2"
  shows "\<exists>c. fp_add rnd (fp_mul rnd (fp_mul rnd (Finite (-3.0)) (Finite t)) (Finite t)) (Finite 1.0)
              = Finite c \<and> 1/4 \<le> c \<and> c \<le> 1"
proof -
  note fx = rounding_fix[OF rnd]
  define a where "a = rnd (-3 * t)"
  have a: "fp_of rnd (-3 * t) = Finite a" "- (3/2) \<le> a" "a \<le> 3/2"
    using fp_of_bounded[OF rnd fx(11) fx(5), of "-3 * t"] t by (simp_all add: a_def)
  have sign: "a * t \<le> 0 \<and> - (3/4) \<le> a * t"
  proof (cases "0 \<le> t")
    case True
    then have "a \<le> 0"
      using rounding_mono[OF rnd, of "-3 * t" 0] fx(1) by (simp add: a_def)
    with product_bound[OF True t(2) a(2)] show ?thesis by simp
  next
    case False
    then have "0 \<le> a"
      using rounding_mono[OF rnd, of 0 "-3 * t"] fx(1) by (simp add: a_def)
    with product_bound[of "- t" "- a"] False t a show ?thesis by simp
  qed
  define b where "b = rnd (a * t)"
  have b: "fp_of rnd (a * t) = Finite b" "- (3/4) \<le> b" "b \<le> 0"
    using fp_of_bounded[OF rnd fx(10) fx(1), of "a * t"] sign by (simp_all add: b_def)
  define c where "c = rnd (b + 1)"
  have c: "fp_of rnd (b + 1) = Finite c" "1/4 \<le> c" "c \<le> 1"
    using fp_of_bounded[OF rnd fx(2) fx(4), of "b + 1"] b by (simp_all add: c_def)
  show ?thesis using a(1) b(1) c by simp
qed

lemma radicand_middle_bound:
  assumes rnd: "rounding rnd" and r: "1/2 < r" "r \<le> 3/2"
  shows "\<exists>c. radicand_middle rnd (Finite r) = Finite c \<and> 1/4 \<le> c \<and> c \<le> 1"
proof -
  note fx = rounding_fix[OF rnd]
  define t where "t = rnd (1 - r)"
  have t: "fp_sub rnd (Finite 1) (Finite r) = Finite t" "- (1/2) \<le> t" "t \<le> 1/2"
    using fp_of_bounded[OF rnd fx(9) fx(3), of "1 - r"] r by (simp_all add: t_def fp_sub_def)
  show ?thesis
    unfolding radicand_middle_def t(1) by (rule radicand_tail[OF rnd t(2,3)])
qed

lemma radicand_inner_bound:
  assumes rnd: "rounding rnd" and r: "0 \<le> r" "r \<le> 1/2"
  shows "\<exists>c. radicand_inner rnd (Finite r) = Finite c \<and> 1/4 \<le> c \<and> c \<le> 1"
  unfolding radicand_inner_def using radicand_tail[OF rnd, of r] r by simp

lemma sqrt_bound:
  assumes rnd: "rounding rnd" and c: "1/4 \<le> c" "c \<le> 1"
  shows "fp_sqrt rnd (Finite c) = Finite (rnd (sqrt c)) \<and> 1/2 \<le> rnd (sqrt c) \<and> rnd (sqrt c) \<le> 1"
proof -
  note fx = rounding_fix[OF rnd]
  have "sqrt (1/4) \<le> sqrt c" "sqrt c \<le> sqrt 1" using c by simp_all
  then have "1/2 \<le> sqrt c" "sqrt c \<le> 1" by (simp_all add: sqrt_quarter)
  then have "1/2 \<le> rnd (sqrt c)" "rnd (sqrt c) \<le> 1"
    using rounding_mono[OF rnd, of "1/2" "sqrt c"] rounding_mono[OF rnd, of "sqrt c" 1] fx
    by simp_all
  then show ?thesis using c by simp
qed

lemma ratio_eq: "h > 0 \<Longrightarrow> fp_div rnd (fp_fabs (Finite x)) (Finite h) = fp_of rnd (\<bar>x\<bar> / h)"
  by simp

lemma fp_mul_Finite_not_NaN: "fp_mul rnd (Finite a) (Finite b) \<noteq> NaN"
  by (simp add: fp_of_not_NaN)

lemma fp_div_one_not_NaN: "d \<noteq> NaN \<Longrightarrow> fp_div rnd (Finite 1.0) d \<noteq> NaN"
  by (cases d) (simp_all add: fp_of_not_NaN fp_inf_def)

lemma inner_branch_not_NaN:
  assumes rnd: "rounding rnd" and h: "h > 0" and r: "0 \<le> r" "r \<le> 1/2"
  shows "dhRoma_fp_inner rnd (Finite r) h \<noteq> NaN"
proof -
  note fx = rounding_fix[OF rnd]
  obtain c where c: "radicand_inner rnd (Finite r) = Finite c" "1/4 \<le> c" "c \<le> 1"
    using radicand_inner_bound[OF rnd r] by blast
  note s = sqrt_bound[OF rnd c(2,3)]
  define w where "w = rnd (1 + rnd (sqrt c))"
  have w: "fp_add rnd (Finite 1.0) (fp_sqrt rnd (radicand_inner rnd (Finite r))) = Finite w"
    "3/2 \<le> w"
    using fp_of_bounded[OF rnd fx(5) fx(6), of "1 + rnd (sqrt c)"] s
    by (simp_all add: c(1) w_def)
  have "fp_mul rnd q (Finite w) \<noteq> NaN" if "q \<noteq> NaN" for q
    using that w(2) by (cases q) (simp_all add: fp_of_not_NaN fp_inf_def)
  moreover have "fp_div rnd (Finite 1.0) (fp_mul rnd (Finite 3) (Finite h)) \<noteq> NaN"
    by (rule fp_div_one_not_NaN) (simp add: fp_of_not_NaN)
  ultimately show ?thesis unfolding dhRoma_fp_inner_def w(1) by blast
qed

lemma middle_branch_not_NaN:
  assumes rnd: "rounding rnd" and r: "1/2 < r" "r \<le> 3/2"
    and q: "fp_finite (fp_div rnd (Finite 1.0) (fp_mul rnd (Finite 6) (Finite h)))"
  shows "dhRoma_fp_middle rnd (Finite r) h \<noteq> NaN"
proof -
  note fx = rounding_fix[OF rnd]
  obtain c where c: "radicand_middle rnd (Finite r) = Finite c" "1/4 \<le> c" "c \<le> 1"
    using radicand_middle_bound[OF rnd r] by blast
  note s = sqrt_bound[OF rnd c(2,3)]
  define u where "u = rnd (3 * r)"
  have u: "fp_of rnd (3 * r) = Finite u" "0 \<le> u" "u \<le> 9/2"
    using fp_of_bounded[OF rnd fx(1) fx(7), of "3 * r"] r by (simp_all add: u_def)
  define v where "v = rnd (5 - u)"
  have v: "fp_of rnd (5 - u) = Finite v" "1/2 \<le> v" "v \<le> 5"
    using fp_of_bounded[OF rnd fx(3) fx(8), of "5 - u"] u by (simp_all add: v_def)
  have w: "fp_of rnd (v - rnd (sqrt c)) = Finite (rnd (v - rnd (sqrt c)))"
    using fp_of_bounded[OF rnd fx(9) fx(7), of "v - rnd (sqrt c)"] v s by simp
  have bracket: "fp_sub rnd (fp_sub rnd (Finite 5.0) (fp_mul rnd (Finite 3.0) (Finite r)))
                      (fp_sqrt rnd (radicand_middle rnd (Finite r))) = Finite (rnd (v - rnd (sqrt c)))"
    using u(1) v(1) w s by (simp add: fp_sub_def c(1))
  from q obtain qv where "fp_div rnd (Finite 1.0) (fp_mul rnd (Finite 6) (Finite h)) = Finite qv"
    by (cases "fp_div rnd (Finite 1.0) (fp_mul rnd (Finite 6) (Finite h))") simp_all
  then show ?thesis unfolding dhRoma_fp_middle_def bracket by (simp add: fp_of_not_NaN)
qed

lemma dhRoma_fp_values:
  "dhRoma_fp exact 0 1 = Finite (2/3)" "dhRoma_fp exact 1 1 = Finite (1/6)"
  "dhRoma_fp exact 2 1 = Finite 0"
  by (simp_all add: dhRoma_fp_def dhRoma_fp_middle_def dhRoma_fp_inner_def radicand_middle_def
      radicand_inner_def fp_sub_def fp_of_def exact_def Let_def DBL_MAX_def)


text \<open>
  Claim C9, as amended.  The claim says that \<open>dhRoma\<close> never produces a NaN for any \<open>x\<close>
  and any \<open>h > 0\<close>, because the argument of the square root is at least \<open>1/4\<close> in the
  branch that is evaluated.  The part about the square roots holds: in exact arithmetic
  with \<open>r = |x|/h\<close>, and also on doubles, where \<open>r\<close> is never a NaN and the computed
  argument of the square root is a finite number not below \<open>1/4\<close>.  The conclusion
  holds when \<open>1.0/(6*h)\<close> is finite, that is, when it does not overflow: then
  \<open>dhRoma x h\<close> is not a NaN.
\<close>

theorem dhRoma_fp_no_NaN:
  assumes "rounding rnd" and "h > 0"
  shows "(\<bar>x\<bar> / h \<le> 0.5 \<longrightarrow> 1/4 \<le> -3.0 * (\<bar>x\<bar> / h) * (\<bar>x\<bar> / h) + 1.0) \<and>
         (0.5 < \<bar>x\<bar> / h \<and> \<bar>x\<bar> / h \<le> 1.5 \<longrightarrow>
            1/4 \<le> -3.0 * (1 - \<bar>x\<bar> / h) * (1 - \<bar>x\<bar> / h) + 1.0) \<and>
         fp_div rnd (fp_fabs (Finite x)) (Finite h) \<noteq> NaN \<and>
         (fp_less (Finite 0.5) (fp_div rnd (fp_fabs (Finite x)) (Finite h)) \<and>
          fp_le (fp_div rnd (fp_fabs (Finite x)) (Finite h)) (Finite 1.5) \<longrightarrow>
            (\<exists>c. radicand_middle rnd (fp_div rnd (fp_fabs (Finite x)) (Finite h)) = Finite c \<and>
                 1/4 \<le> c)) \<and>
         (\<not> fp_less (Finite 1.5) (fp_div rnd (fp_fabs (Finite x)) (Finite h)) \<and>
          \<not> (fp_less (Finite 0.5) (fp_div rnd (fp_fabs (Finite x)) (Finite h)) \<and>
             fp_le (fp_div rnd (fp_fabs (Finite x)) (Finite h)) (Finite 1.5)) \<longrightarrow>
            (\<exists>c. radicand_inner rnd (fp_div rnd (fp_fabs (Finite x)) (Finite h)) = Finite c \<and>
                 1/4 \<le> c)) \<and>
         (fp_finite (fp_div rnd (Finite 1.0) (fp_mul rnd (Finite 6) (Finite h))) \<longrightarrow>
            dhRoma_fp rnd x h \<noteq> NaN)"
proof -
  note h = assms(2)
  define r where "r = fp_of rnd (\<bar>x\<bar> / h)"
  have d: "dhRoma_fp rnd x h =
      (if fp_less (Finite 1.5) r then Finite 0.0
       else if fp_less (Finite 0.5) r \<and> fp_le r (Finite 1.5) then dhRoma_fp_middle rnd r h
       else dhRoma_fp_inner rnd r h)"
    unfolding dhRoma_fp_def Let_def ratio_eq[OF h] r_def[symmetric] by (rule refl)
  consider "r = PosInf" | rv where "r = Finite rv" "0 \<le> rv"
    using fp_of_nonneg[OF assms(1), of "\<bar>x\<bar> / h"] h unfolding r_def by auto
  then have "r \<noteq> NaN \<and>
         (fp_less (Finite 0.5) r \<and> fp_le r (Finite 1.5) \<longrightarrow>
            (\<exists>c. radicand_middle rnd r = Finite c \<and> 1/4 \<le> c)) \<and>
         (\<not> fp_less (Finite 1.5) r \<and> \<not> (fp_less (Finite 0.5) r \<and> fp_le r (Finite 1.5)) \<longrightarrow>
            (\<exists>c. radicand_inner rnd r = Finite c \<and> 1/4 \<le> c)) \<and>
         (fp_finite (fp_div rnd (Finite 1.0) (fp_mul rnd (Finite 6) (Finite h))) \<longrightarrow>
            dhRoma_fp rnd x h \<noteq> NaN)"
  proof cases
    case 1
    then show ?thesis by (simp add: d)
  next
    case 2
    show ?thesis
    proof (cases "3/2 < rv")
      case True
      with 2 show ?thesis by (simp add: d)
    next
      case out: False
      show ?thesis
      proof (cases "1/2 < rv")
        case True
        with out have rv: "1/2 < rv" "rv \<le> 3/2" by simp_all
        from radicand_middle_bound[OF assms(1) rv] middle_branch_not_NaN[OF assms(1) rv, of h]
        show ?thesis using 2 rv by (auto simp: d)
      next
        case False
        with 2 have rv: "0 \<le> rv" "rv \<le> 1/2" by simp_all
        from radicand_inner_bound[OF assms(1) rv] inner_branch_not_NaN[OF assms rv]
        show ?thesis using 2 rv False by (auto simp: d)
      qed
    qed
  qed
  then have doubles: "fp_div rnd (fp_fabs (Finite x)) (Finite h) \<noteq> NaN \<and>
         (fp_less (Finite 0.5) (fp_div rnd (fp_fabs (Finite x)) (Finite h)) \<and>
          fp_le (fp_div rnd (fp_fabs (Finite x)) (Finite h)) (Finite 1.5) \<longrightarrow>
            (\<exists>c. radicand_middle rnd (fp_div rnd (fp_fabs (Finite x)) (Finite h)) = Finite c \<and>
                 1/4 \<le> c)) \<and>
         (\<not> fp_less (Finite 1.5) (fp_div rnd (fp_fabs (Finite x)) (Finite h)) \<and>
          \<not> (fp_less (Finite 0.5) (fp_div rnd (fp_fabs (Finite x)) (Finite h)) \<and>
             fp_le (fp_div rnd (fp_fabs (Finite x)) (Finite h)) (Finite 1.5)) \<longrightarrow>
            (\<exists>c. radicand_inner rnd (fp_div rnd (fp_fabs (Finite x)) (Finite h)) = Finite c \<and>
                 1/4 \<le> c)) \<and>
         (fp_finite (fp_div rnd (Finite 1.0) (fp_mul rnd (Finite 6) (Finite h))) \<longrightarrow>
            dhRoma_fp rnd x h \<noteq> NaN)"
    unfolding ratio_eq[OF h] r_def .
  have r0: "0 \<le> \<bar>x\<bar> / h" using h by simp
  have reals: "(\<bar>x\<bar> / h \<le> 0.5 \<longrightarrow> 1/4 \<le> -3.0 * (\<bar>x\<bar> / h) * (\<bar>x\<bar> / h) + 1.0) \<and>
         (0.5 < \<bar>x\<bar> / h \<and> \<bar>x\<bar> / h \<le> 1.5 \<longrightarrow>
            1/4 \<le> -3.0 * (1 - \<bar>x\<bar> / h) * (1 - \<bar>x\<bar> / h) + 1.0)"
    using inner_radicand[OF r0] middle_radicand[of "\<bar>x\<bar> / h"] by simp
  from reals doubles show ?thesis by blast
qed

theorem dhRoma_fp_no_NaN_witness:
  "rounding exact \<and> (0::real) < 1 \<and>
   fp_finite (fp_div exact (Finite 1.0) (fp_mul exact (Finite 6) (Finite 1))) \<and>
   dhRoma_fp exact 1 1 \<noteq> NaN \<and> dhRoma_fp exact 0 1 \<noteq> NaN \<and>
   radicand_middle exact (Finite 1) = Finite 1 \<and> radicand_inner exact (Finite 0) = Finite 1"
proof -
  have fin: "fp_finite (fp_div exact (Finite 1.0) (fp_mul exact (Finite 6) (Finite 1)))"
    by (simp add: fp_of_def exact_def DBL_MAX_def)
  have rad: "radicand_middle exact (Finite 1) = Finite 1"
    "radicand_inner exact (Finite 0) = Finite 1"
    by (simp_all add: radicand_middle_def radicand_inner_def fp_sub_def fp_of_def exact_def
        DBL_MAX_def)
  from dhRoma_fp_no_NaN[OF rounding_exact, of 1 1] dhRoma_fp_no_NaN[OF rounding_exact, of 1 0] fin
  have "dhRoma_fp exact 1 1 \<noteq> NaN \<and> dhRoma_fp exact 0 1 \<noteq> NaN" by simp
  with fin rad rounding_exact show ?thesis by simp
qed

text \<open>
  The claim as it was stated fails for a very small spacing.  Take \<open>h = 2\<^sup>-\<^sup>1\<^sup>0\<^sup>7\<^sup>3\<close> (the
  double written \<^verbatim>\<open>1e-323\<close>) and \<open>x = 3 * 2\<^sup>-\<^sup>1\<^sup>0\<^sup>7\<^sup>4\<close> (the double written \<^verbatim>\<open>1.5e-323\<close>).
  Then \<open>r = 1.5\<close>, the middle branch is taken, the bracket
  \<^verbatim>\<open>5.0 - 3.0*r - sqrt(...)\<close> is \<open>0.5 - 0.5 = 0\<close>, the factor \<^verbatim>\<open>1.0/(6*h)\<close> overflows to
  infinity, and infinity times zero is NaN.  Every finite intermediate value of this
  run is a double, so rounding leaves it unchanged, and the overflow does not depend on
  the rounding.
\<close>

theorem dhRoma_NaN_counterexample:
  "(0::real) < 1 / 2 ^ 1073 \<and>
   fp_div exact (Finite 1.0) (fp_mul exact (Finite 6) (Finite (1 / 2 ^ 1073))) = PosInf \<and>
   dhRoma_fp exact (3 / 2 ^ 1074) (1 / 2 ^ 1073) = NaN"
  by (simp add: dhRoma_fp_def dhRoma_fp_middle_def radicand_middle_def fp_sub_def fp_of_def
      exact_def Let_def DBL_MAX_def sqrt_quarter fp_inf_def)


section \<open>The loops in closed form\<close>

subsection \<open>Generic facts about the loop combinators\<close>

lemma fold_nested:
  "fold (\<lambda>p. fold (f p) (g p)) ps st =
   fold (\<lambda>(p, l). f p l) (concat (map (\<lambda>p. map (Pair p) (g p)) ps)) st"
  by (induction ps arbitrary: st) (simp_all add: fold_map comp_def)

lemma fold_err_append:
  "fold_err f (xs @ ys) st =
     (case fold_err f xs st of Inl e \<Rightarrow> Inl e | Inr st' \<Rightarrow> fold_err f ys st')"
  by (induction xs arbitrary: st) (auto split: sum.splits)

lemma fold_err_map: "fold_err f (map g xs) st = fold_err (\<lambda>a. f (g a)) xs st"
  by (induction xs arbitrary: st) (auto split: sum.splits)

lemma fold_err_nested:
  "fold_err (\<lambda>j. fold_err (f j) (g j)) js st =
   fold_err (\<lambda>(j, i). f j i) (concat (map (\<lambda>j. map (Pair j) (g j)) js)) st"
  by (induction js arbitrary: st) (auto simp: fold_err_append fold_err_map split: sum.splits)

lemma fold_err_Inr:
  assumes "\<And>a st. a \<in> set xs \<Longrightarrow> f a st = Inr (g a st)"
  shows "fold_err f xs st = Inr (fold g xs st)"
  using assms by (induction xs arbitrary: st) simp_all

lemma CHKERRV_ok: "CHKERRV 0 line rest = rest"
  by (simp add: CHKERRV_def)

lemma petsc_okD: "petsc_ok petsc \<Longrightarrow> petsc line n = 0"
  by (simp add: petsc_ok_def)

lemma CHKERRV_lines_ok:
  assumes "petsc_ok petsc"
  shows "CHKERRV_lines petsc lines rest = rest"
  unfolding CHKERRV_lines_def
  by (induction lines) (simp_all add: petsc_okD[OF assms] CHKERRV_ok)

lemma fold_count_points:
  assumes "k < length da" "k < length oa"
  shows "fold (\<lambda>pt (da, oa). if P pt then (if Q pt then (da[k := da ! k + 1], oa)
                                             else (da, oa[k := oa ! k + 1]))
                              else (da, oa)) pts (da, oa) =
         (da[k := da ! k + int (length (filter (\<lambda>pt. Q pt) (filter P pts)))],
          oa[k := oa ! k + int (length (filter (\<lambda>pt. \<not> Q pt) (filter P pts)))])"
  using assms
proof (induction pts arbitrary: da oa)
  case Nil
  then show ?case by simp
next
  case (Cons pt pts)
  then show ?case by (simp add: add.assoc)
qed

lemma fold_fill_points:
  "fold (\<lambda>pt calls. if P pt then calls @ [F pt] else calls) pts calls =
   calls @ map F (filter P pts)"
  by (induction pts arbitrary: calls) simp_all

lemma overwrite_Nil: "overwrite k [] xs = xs"
  by (simp add: overwrite_def)

lemma overwrite_Cons:
  "k < length xs \<Longrightarrow> overwrite (Suc k) vs (xs[k := v]) = overwrite k (v # vs) xs"
  by (simp add: overwrite_def take_Suc_conv_app_nth)

lemma overwrite_nth:
  "k + length vs \<le> length xs \<Longrightarrow> i < length vs \<Longrightarrow> overwrite k vs xs ! (k + i) = vs ! i"
  by (simp add: overwrite_def nth_append)

lemma fold_err_store_row:
  "fold_err store_row rs (k, da, oa) =
     (if rs = [] \<or> k + length rs \<le> min (length da) (length oa)
      then Inr (k + length rs, overwrite k (map fst rs) da, overwrite k (map snd rs) oa)
      else Inl OutOfBounds)"
proof (induction rs arbitrary: k da oa)
  case Nil
  then show ?case by (simp add: overwrite_Nil)
next
  case (Cons r rs)
  obtain a b where r: "r = (a, b)" by (cases r)
  show ?case
  proof (cases "k < length da \<and> k < length oa")
    case False
    then show ?thesis by (auto simp: r store_row_def)
  next
    case True
    then have "fold_err store_row (r # rs) (k, da, oa) =
        fold_err store_row rs (Suc k, da[k := a], oa[k := b])"
      by (simp add: r store_row_def)
    also have "\<dots> = (if rs = [] \<or> Suc k + length rs \<le> min (length da) (length oa)
        then Inr (Suc k + length rs, overwrite (Suc k) (map fst rs) (da[k := a]),
                  overwrite (Suc k) (map snd rs) (oa[k := b]))
        else Inl OutOfBounds)"
      by (simp add: Cons.IH)
    finally show ?thesis using True
      by (auto simp: r overwrite_Cons)
  qed
qed

lemma length_filter_split:
  "int (length (filter P xs)) + int (length (filter (\<lambda>a. \<not> P a) xs)) = int (length xs)"
  using sum_length_filter_compl[of P xs] by linarith


subsection \<open>Pass 1 writes \<open>row_nnz\<close> of each face, in order\<close>

lemma count_row_U_store:
  "count_row_U s (face_y s (UFace j i)) j i = store_row (row_nnz s (UFace j i))"
proof (rule ext)
  fix st :: "nat \<times> nnz_arrays"
  obtain k da oa where st: "st = (k, da, oa)" by (cases st) auto
  have step: "count_point_U s (face_x s (UFace j i)) (face_y s (UFace j i)) k p l =
      (\<lambda>(da, oa). if in_support s (UFace j i) (p, l)
                then (if owned s (body_col s (UFace j i) (p, l)) then (da[k := da ! k + 1], oa)
                      else (da, oa[k := oa ! k + 1]))
                else (da, oa))" for p l
    by (auto simp: count_point_U_def in_support_def owned_def fun_eq_iff Let_def)
  show "count_row_U s (face_y s (UFace j i)) j i st = store_row (row_nnz s (UFace j i)) st"
  proof (cases "k < length da \<and> k < length oa")
    case False
    then show ?thesis by (auto simp: st count_row_U_def store_row_def Let_def split: prod.splits)
  next
    case True
    have "fold (\<lambda>procIdx. fold (count_point_U s (face_x s (UFace j i)) (face_y s (UFace j i)) k procIdx)
                                  (boundaryPointIndices s procIdx)) [0..<numProcs s] (da', oa')
       = fold (\<lambda>pt (da, oa). if in_support s (UFace j i) pt
                then (if owned s (body_col s (UFace j i) pt) then (da[k := da ! k + 1], oa)
                      else (da, oa[k := oa ! k + 1]))
                else (da, oa)) (body_points s) (da', oa')" for da' oa'
      unfolding fold_nested body_points_def
      by (rule arg_cong[where f="\<lambda>F. fold F _ _"])
         (auto simp: step fun_eq_iff simp del: face_x.simps face_y.simps body_col.simps)
    then show ?thesis using True
      by (simp add: st count_row_U_def store_row_def Let_def fold_count_points row_nnz_def
          split: prod.splits)
  qed
qed

lemma count_row_V_store:
  "count_row_V s (face_y s (VFace j i)) j i = store_row (row_nnz s (VFace j i))"
proof (rule ext)
  fix st :: "nat \<times> nnz_arrays"
  obtain k da oa where st: "st = (k, da, oa)" by (cases st) auto
  have step: "count_point_V s (face_x s (VFace j i)) (face_y s (VFace j i)) k p l =
      (\<lambda>(da, oa). if in_support s (VFace j i) (p, l)
                then (if owned s (body_col s (VFace j i) (p, l)) then (da[k := da ! k + 1], oa)
                      else (da, oa[k := oa ! k + 1]))
                else (da, oa))" for p l
    by (auto simp: count_point_V_def in_support_def owned_def fun_eq_iff Let_def)
  show "count_row_V s (face_y s (VFace j i)) j i st = store_row (row_nnz s (VFace j i)) st"
  proof (cases "k < length da \<and> k < length oa")
    case False
    then show ?thesis by (auto simp: st count_row_V_def store_row_def Let_def split: prod.splits)
  next
    case True
    have "fold (\<lambda>procIdx. fold (count_point_V s (face_x s (VFace j i)) (face_y s (VFace j i)) k procIdx)
                                  (boundaryPointIndices s procIdx)) [0..<numProcs s] (da', oa')
       = fold (\<lambda>pt (da, oa). if in_support s (VFace j i) pt
                then (if owned s (body_col s (VFace j i) pt) then (da[k := da ! k + 1], oa)
                      else (da, oa[k := oa ! k + 1]))
                else (da, oa)) (body_points s) (da', oa')" for da' oa'
      unfolding fold_nested body_points_def
      by (rule arg_cong[where f="\<lambda>F. fold F _ _"])
         (auto simp: step fun_eq_iff simp del: face_x.simps face_y.simps body_col.simps)
    then show ?thesis using True
      by (simp add: st count_row_V_def store_row_def Let_def fold_count_points row_nnz_def
          split: prod.splits)
  qed
qed

lemma count_U_store:
  "count_U s st =
     fold_err store_row (map (row_nnz s) (map (\<lambda>(j, i). UFace j i) (grid (uda s)))) st"
proof -
  have "count_U s st =
      fold_err (\<lambda>(j, i). count_row_U s (face_y s (UFace j i)) j i) (grid (uda s)) st"
    by (simp add: count_U_def Let_def fold_err_nested grid_def)
  also have "(\<lambda>(j, i). count_row_U s (face_y s (UFace j i)) j i) =
      (\<lambda>ji. store_row (row_nnz s ((\<lambda>(j, i). UFace j i) ji)))"
    by (auto simp: fun_eq_iff count_row_U_store simp del: face_y.simps)
  finally show ?thesis by (simp add: fold_err_map)
qed

lemma count_V_store:
  "count_V s st =
     fold_err store_row (map (row_nnz s) (map (\<lambda>(j, i). VFace j i) (grid (vda s)))) st"
proof -
  have "count_V s st =
      fold_err (\<lambda>(j, i). count_row_V s (face_y s (VFace j i)) j i) (grid (vda s)) st"
    by (simp add: count_V_def Let_def fold_err_nested grid_def)
  also have "(\<lambda>(j, i). count_row_V s (face_y s (VFace j i)) j i) =
      (\<lambda>ji. store_row (row_nnz s ((\<lambda>(j, i). VFace j i) ji)))"
    by (auto simp: fun_eq_iff count_row_V_store simp del: face_y.simps)
  finally show ?thesis by (simp add: fold_err_map)
qed

lemma pass1_store:
  assumes "petsc_ok petsc"
  shows "pass1 petsc s d0 o0 = fold_err store_row (map (row_nnz s) (faces s)) (0, d0, o0)"
  by (auto simp: pass1_def petsc_okD[OF assms] CHKERRV_ok count_U_store count_V_store faces_def
      fold_err_append split: sum.splits)

lemma pass1_rows:
  assumes "petsc_ok petsc"
    and "length (faces s) \<le> length d0" "length (faces s) \<le> length o0"
  shows "pass1 petsc s d0 o0 =
     Inr (length (faces s), overwrite 0 (map (fst \<circ> row_nnz s) (faces s)) d0,
          overwrite 0 (map (snd \<circ> row_nnz s) (faces s)) o0)"
  using assms(2,3) by (simp add: pass1_store[OF assms(1)] fold_err_store_row)

lemma pass1_Inr:
  assumes ok: "petsc_ok petsc"
    and "pass1 petsc s d0 o0 = Inr (kend, da, oa)" "k < length (faces s)"
  shows "kend = length (faces s)"
    and "da ! k = fst (row_nnz s (faces s ! k))"
    and "oa ! k = snd (row_nnz s (faces s ! k))"
proof -
  from assms(3) have ne: "faces s \<noteq> []" by auto
  with assms(2) have bound: "length (faces s) \<le> min (length d0) (length o0)"
    and res: "kend = length (faces s)"
      "da = overwrite 0 (map fst (map (row_nnz s) (faces s))) d0"
      "oa = overwrite 0 (map snd (map (row_nnz s) (faces s))) o0"
    by (auto simp: pass1_store[OF ok] fold_err_store_row split: if_splits)
  show "kend = length (faces s)" by (rule res)
  show "da ! k = fst (row_nnz s (faces s ! k))"
    using overwrite_nth[of 0 "map fst (map (row_nnz s) (faces s))" d0 k] bound assms(3)
    by (simp add: res)
  show "oa ! k = snd (row_nnz s (faces s ! k))"
    using overwrite_nth[of 0 "map snd (map (row_nnz s) (faces s))" o0 k] bound assms(3)
    by (simp add: res)
qed

lemma adjacent_cells_two: "length (adjacent_cells s f) = 2"
  by (cases f) simp_all

lemma row_nnz_parts:
  "fst (row_nnz s f) =
     fst (countNumNonZeros (adjacent_cells s f) 2 (lambdaStart s) (lambdaEnd s)) +
     int (length (filter (\<lambda>pt. owned s (body_col s f pt))
                    (filter (in_support s f) (body_points s))))"
  "snd (row_nnz s f) =
     snd (countNumNonZeros (adjacent_cells s f) 2 (lambdaStart s) (lambdaEnd s)) +
     int (length (filter (\<lambda>pt. \<not> owned s (body_col s f pt))
                    (filter (in_support s f) (body_points s))))"
  by (simp_all add: row_nnz_def Let_def split: prod.splits del: filter_filter)

lemma row_nnz_total:
  "fst (row_nnz s f) + snd (row_nnz s f) =
     2 + int (length (filter (in_support s f) (body_points s)))"
proof -
  have "fst (countNumNonZeros (adjacent_cells s f) 2 (lambdaStart s) (lambdaEnd s)) +
        snd (countNumNonZeros (adjacent_cells s f) 2 (lambdaStart s) (lambdaEnd s)) = 2"
    using length_filter_split[of "\<lambda>c. lambdaStart s \<le> c \<and> c < lambdaEnd s" "adjacent_cells s f"]
    by (simp add: countNumNonZeros_def adjacent_cells_two)
  moreover have "int (length (filter (\<lambda>pt. owned s (body_col s f pt))
                          (filter (in_support s f) (body_points s)))) +
        int (length (filter (\<lambda>pt. \<not> owned s (body_col s f pt))
                          (filter (in_support s f) (body_points s)))) =
        int (length (filter (in_support s f) (body_points s)))"
    by (rule length_filter_split)
  ultimately show ?thesis
    unfolding row_nnz_parts by linarith
qed


subsection \<open>Pass 2 issues \<open>row_calls\<close> of each face, in order\<close>

lemma fill_row_U_calls:
  assumes ok: "petsc_ok petsc"
  shows "fill_row_U petsc s (face_y s (UFace j i)) j i (k, calls) =
     Inr (k + 1, calls @ row_calls s (int k + qStart s) (UFace j i))"
proof -
  have step: "fill_point_U petsc s (face_x s (UFace j i)) (face_y s (UFace j i)) row p l cs =
      Inr (if in_support s (UFace j i) (p, l)
           then cs @ [body_call s row (UFace j i) (p, l)] else cs)" for p l row cs
    by (auto simp: fill_point_U_def in_support_def body_call_def Let_def petsc_okD[OF ok]
        CHKERRV_ok)
  have "fold_err (\<lambda>procIdx. fold_err
            (fill_point_U petsc s (face_x s (UFace j i)) (face_y s (UFace j i)) row procIdx)
            (boundaryPointIndices s procIdx)) [0..<numProcs s] cs
       = Inr (fold (\<lambda>pt calls. if in_support s (UFace j i) pt
                then calls @ [body_call s row (UFace j i) pt] else calls) (body_points s) cs)"
    for cs row
    unfolding fold_err_nested body_points_def[symmetric]
    by (rule fold_err_Inr) (auto simp: step simp del: face_x.simps face_y.simps body_col.simps)
  then show ?thesis
    by (simp add: fill_row_U_def Let_def petsc_okD[OF ok] CHKERRV_ok fold_fill_points
        row_calls_def)
qed

lemma fill_row_V_calls:
  assumes ok: "petsc_ok petsc"
  shows "fill_row_V petsc s (face_y s (VFace j i)) j i (k, calls) =
     Inr (k + 1, calls @ row_calls s (int k + qStart s) (VFace j i))"
proof -
  have step: "fill_point_V petsc s (face_x s (VFace j i)) (face_y s (VFace j i)) row p l cs =
      Inr (if in_support s (VFace j i) (p, l)
           then cs @ [body_call s row (VFace j i) (p, l)] else cs)" for p l row cs
    by (auto simp: fill_point_V_def in_support_def body_call_def Let_def petsc_okD[OF ok]
        CHKERRV_ok)
  have "fold_err (\<lambda>procIdx. fold_err
            (fill_point_V petsc s (face_x s (VFace j i)) (face_y s (VFace j i)) row procIdx)
            (boundaryPointIndices s procIdx)) [0..<numProcs s] cs
       = Inr (fold (\<lambda>pt calls. if in_support s (VFace j i) pt
                then calls @ [body_call s row (VFace j i) pt] else calls) (body_points s) cs)"
    for cs row
    unfolding fold_err_nested body_points_def[symmetric]
    by (rule fold_err_Inr) (auto simp: step simp del: face_x.simps face_y.simps body_col.simps)
  then show ?thesis
    by (simp add: fill_row_V_def Let_def petsc_okD[OF ok] CHKERRV_ok fold_fill_points
        row_calls_def)
qed

lemma fold_rows:
  "fold (\<lambda>f (k, calls). (Suc k, calls @ row_calls s (int k + qStart s) f)) fs (k, calls) =
     (k + length fs, calls @ block_calls s k fs)"
  by (induction fs arbitrary: k calls) (simp_all add: block_calls_def)

lemma block_calls_append:
  "block_calls s k (fs @ gs) = block_calls s k fs @ block_calls s (k + length fs) gs"
  by (simp add: block_calls_def enumerate_append_eq)

lemma fill_U_calls:
  assumes ok: "petsc_ok petsc"
  shows "fill_U petsc s (k, calls) =
     Inr (k + length (grid (uda s)),
          calls @ block_calls s k (map (\<lambda>(j, i). UFace j i) (grid (uda s))))"
proof -
  have "fill_U petsc s (k, calls) =
      fold_err (\<lambda>(j, i). fill_row_U petsc s (face_y s (UFace j i)) j i) (grid (uda s)) (k, calls)"
    by (simp add: fill_U_def Let_def fold_err_nested grid_def)
  also have "\<dots> = Inr (fold (\<lambda>ji (k, calls).
        (k + 1, calls @ row_calls s (int k + qStart s) ((\<lambda>(j, i). UFace j i) ji)))
      (grid (uda s)) (k, calls))"
    by (rule fold_err_Inr) (auto simp: fill_row_U_calls[OF ok] simp del: face_y.simps)
  also have "\<dots> = Inr (fold (\<lambda>f (k, calls). (k + 1, calls @ row_calls s (int k + qStart s) f))
      (map (\<lambda>(j, i). UFace j i) (grid (uda s))) (k, calls))"
    by (simp add: fold_map comp_def)
  finally show ?thesis by (simp add: fold_rows)
qed

lemma fill_V_calls:
  assumes ok: "petsc_ok petsc"
  shows "fill_V petsc s (k, calls) =
     Inr (k + length (grid (vda s)),
          calls @ block_calls s k (map (\<lambda>(j, i). VFace j i) (grid (vda s))))"
proof -
  have "fill_V petsc s (k, calls) =
      fold_err (\<lambda>(j, i). fill_row_V petsc s (face_y s (VFace j i)) j i) (grid (vda s)) (k, calls)"
    by (simp add: fill_V_def Let_def fold_err_nested grid_def)
  also have "\<dots> = Inr (fold (\<lambda>ji (k, calls).
        (k + 1, calls @ row_calls s (int k + qStart s) ((\<lambda>(j, i). VFace j i) ji)))
      (grid (vda s)) (k, calls))"
    by (rule fold_err_Inr) (auto simp: fill_row_V_calls[OF ok] simp del: face_y.simps)
  also have "\<dots> = Inr (fold (\<lambda>f (k, calls). (k + 1, calls @ row_calls s (int k + qStart s) f))
      (map (\<lambda>(j, i). VFace j i) (grid (vda s))) (k, calls))"
    by (simp add: fold_map comp_def)
  finally show ?thesis by (simp add: fold_rows)
qed

lemma pass2_blocks:
  assumes ok: "petsc_ok petsc"
  shows "pass2 petsc s = Inr (block_calls s 0 (faces s))"
  by (simp add: pass2_def petsc_okD[OF ok] CHKERRV_ok fill_U_calls[OF ok] fill_V_calls[OF ok]
      faces_def block_calls_append)

lemma row_calls_row: "c \<in> set (row_calls s row f) \<Longrightarrow> call_row c = row"
  by (auto simp: row_calls_def body_call_def)

lemma calls_of_row_same: "calls_of_row row (row_calls s row f) = row_calls s row f"
  unfolding calls_of_row_def by (rule filter_True) (simp add: row_calls_row)

lemma calls_of_row_other: "row' \<noteq> row \<Longrightarrow> calls_of_row row (row_calls s row' f) = []"
  unfolding calls_of_row_def by (auto simp: filter_empty_conv dest: row_calls_row)

lemma calls_of_row_append:
  "calls_of_row row (xs @ ys) = calls_of_row row xs @ calls_of_row row ys"
  by (simp add: calls_of_row_def)

lemma calls_of_row_later:
  "k < k0 \<Longrightarrow> calls_of_row (int k + qStart s) (block_calls s k0 fs) = []"
proof (induction fs arbitrary: k0)
  case Nil
  then show ?case by (simp add: block_calls_def calls_of_row_def)
next
  case (Cons f fs)
  have "block_calls s k0 (f # fs) = row_calls s (int k0 + qStart s) f @ block_calls s (Suc k0) fs"
    by (simp add: block_calls_def)
  then show ?case using Cons
    by (simp add: calls_of_row_append calls_of_row_other)
qed

lemma calls_of_row_block:
  "k0 \<le> k \<Longrightarrow> k < k0 + length fs \<Longrightarrow>
   calls_of_row (int k + qStart s) (block_calls s k0 fs) =
     row_calls s (int k + qStart s) (fs ! (k - k0))"
proof (induction fs arbitrary: k0)
  case Nil
  then show ?case by simp
next
  case (Cons f fs)
  have split: "block_calls s k0 (f # fs) =
      row_calls s (int k0 + qStart s) f @ block_calls s (Suc k0) fs"
    by (simp add: block_calls_def)
  show ?case
  proof (cases "k = k0")
    case True
    then show ?thesis
      by (simp add: split calls_of_row_append calls_of_row_same calls_of_row_later)
  next
    case False
    with Cons.prems have "Suc k0 \<le> k" "k < Suc k0 + length fs" by auto
    from Cons.IH[OF this] False Cons.prems show ?thesis
      by (simp add: split calls_of_row_append calls_of_row_other Suc_diff_le nth_Cons')
  qed
qed

lemma pass2_row:
  assumes "petsc_ok petsc" "pass2 petsc s = Inr calls" "k < length (faces s)"
  shows "calls_of_row (int k + qStart s) calls = row_calls s (int k + qStart s) (faces s ! k)"
  using calls_of_row_block[of 0 k "faces s" s] assms(2,3) by (simp add: pass2_blocks[OF assms(1)])

lemma row_calls_entries:
  "length (concat (map call_entries (row_calls s row f))) =
     2 + length (filter (in_support s f) (body_points s))"
proof -
  have "length (concat (map call_entries (map (body_call s row f) pts))) = length pts" for pts
    by (induction pts) (auto simp: body_call_def)
  then show ?thesis
    by (simp add: row_calls_def values_G_def adjacent_cells_two)
qed

lemma pass2_inserted:
  assumes "petsc_ok petsc" "pass2 petsc s = Inr calls" "k < length (faces s)"
  shows "inserted_in_row (int k + qStart s) calls =
     2 + length (filter (in_support s (faces s ! k)) (body_points s))"
  by (simp add: inserted_in_row_def pass2_row[OF assms] row_calls_entries)

lemma body_calls_not_gradient:
  "filter (\<lambda>c. \<not> is_gradient_call c) (map (body_call s row f) pts) = map (body_call s row f) pts"
  by (induction pts) (auto simp: body_call_def)

lemma body_calls_no_gradient:
  "filter is_gradient_call (map (body_call s row f) pts) = []"
  by (induction pts) (auto simp: body_call_def)

lemma pass2_body_calls:
  assumes "petsc_ok petsc" "pass2 petsc s = Inr calls" "k < length (faces s)"
  shows "filter (\<lambda>c. \<not> is_gradient_call c) (calls_of_row (int k + qStart s) calls) =
     map (body_call s (int k + qStart s) (faces s ! k))
         (filter (in_support s (faces s ! k)) (body_points s))"
  by (simp add: pass2_row[OF assms] row_calls_def body_calls_not_gradient)

lemma pass2_gradient_calls:
  assumes "petsc_ok petsc" "pass2 petsc s = Inr calls" "k < length (faces s)"
  shows "filter is_gradient_call (calls_of_row (int k + qStart s) calls) =
     [MatSetValues (int k + qStart s) (adjacent_cells s (faces s ! k)) [-1, 1]]"
  by (simp add: pass2_row[OF assms] row_calls_def values_G_def body_calls_no_gradient)

lemma call_col_body_call: "call_col (body_call s row f pt) = [body_col s f pt]"
  by (cases pt) (simp add: body_call_def)

lemma generateBNQ2_result:
  assumes ok: "petsc_ok petsc"
    and "length (faces s) \<le> nat (qEnd s - qStart s)"
  shows "generateBNQ2 petsc s junk_d junk_o =
     Inr (s\<lparr>BNQ := MatDiagonalScale (MatAssembly (block_calls s 0 (faces s))) (BN s),
            QT := MatTranspose (MatAssembly (block_calls s 0 (faces s)))\<rparr>)"
proof -
  have "length (faces s) \<le> length (PetscMalloc (nat (qEnd s - qStart s)) junk)" for junk
    using assms(2) by (simp add: PetscMalloc_def)
  then show ?thesis
    by (simp add: generateBNQ2_def Let_def CHKERRV_lines_ok[OF ok] petsc_okD[OF ok] CHKERRV_ok
        pass1_rows[OF ok] pass2_blocks[OF ok])
qed


subsection \<open>The small solver state, evaluated\<close>

lemma example_fields:
  "numProcs example_solver = 2" "qStart example_solver = 10" "qEnd example_solver = 12"
  "lambdaStart example_solver = 0" "lambdaEnd example_solver = 5" "h_grid example_solver = 1"
  "mesh_x example_solver = real_of_int" "mesh_y example_solver = real_of_int"
  "x_body example_solver = (\<lambda>l. if l = 0 then 1 else 5)"
  "y_body example_solver = (\<lambda>l. if l = 0 then 1/2 else 5)"
  "bodyGlobalIndices example_solver = (\<lambda>l. if l = 0 then 4 else 7)"
  "numBoundaryPointsOnProcess example_solver = (\<lambda>p. 1)"
  "BN example_solver = (\<lambda>r. 2)"
  by (simp_all add: example_solver_def)

lemma example_faces: "faces example_solver = [UFace 0 0, VFace 0 0]"
  by (simp add: faces_def grid_def example_solver_def)

lemma example_adjacent:
  "adjacent_cells example_solver (UFace 0 0) = [0, 1]"
  "adjacent_cells example_solver (VFace 0 0) = [0, 2]"
  by (simp_all add: example_solver_def PetscInt_of_real_def)

lemma example_body_points: "body_points example_solver = [(0, 0), (1, 1)]"
  by (simp add: body_points_def example_solver_def upt_rec)

lemma example_near:
  "filter (in_support example_solver (UFace 0 0)) (body_points example_solver) = [(0, 0)]"
  "filter (in_support example_solver (VFace 0 0)) (body_points example_solver) = [(0, 0)]"
  by (simp_all add: example_body_points in_support_def example_fields)

lemma no_error_ok: "petsc_ok no_error"
  by (simp add: petsc_ok_def no_error_def)

lemma example_pass2:
  "pass2 no_error example_solver =
     Inr [MatSetValues 10 [0, 1] [-1, 1], MatSetValue 10 4 0,
          MatSetValues 11 [0, 2] [-1, 1], MatSetValue 11 5 0]"
  by (simp add: pass2_def fill_U_def fill_V_def example_solver_def fill_row_U_def fill_row_V_def
      fill_point_U_def fill_point_V_def values_G_def PetscInt_of_real_def delta_def dhRoma_def
      dhRoma_inner_def dhRoma_middle_def Let_def sqrt_quarter upt_rec CHKERRV_def no_error_def)

lemma example_pass2_failure:
  "pass2 (\<lambda>line n. if line = 138 then 76 else 0) example_solver = Inl (PetscError 138)"
  by (simp add: pass2_def fill_U_def fill_V_def example_solver_def fill_row_U_def fill_row_V_def
      fill_point_U_def fill_point_V_def values_G_def PetscInt_of_real_def delta_def dhRoma_def
      dhRoma_inner_def dhRoma_middle_def Let_def sqrt_quarter upt_rec CHKERRV_def)

lemma example_pass1: "pass1 no_error example_solver [7, 7] [9, 9] = Inr (2, [3, 2], [0, 1])"
  by (simp add: pass1_def count_U_def count_V_def example_solver_def count_row_U_def
      count_row_V_def count_point_U_def count_point_V_def countNumNonZeros_def
      PetscInt_of_real_def Let_def upt_rec CHKERRV_def no_error_def)

lemma example_pass1_overrun: "pass1 no_error example_solver [7] [9] = Inl OutOfBounds"
  by (simp add: pass1_def count_U_def count_V_def example_solver_def count_row_U_def
      count_row_V_def count_point_U_def count_point_V_def countNumNonZeros_def
      PetscInt_of_real_def Let_def upt_rec CHKERRV_def no_error_def)

lemma example_assembled:
  "MatAssembly [MatSetValues 10 [0, 1] [-1, 1], MatSetValue 10 4 0,
                MatSetValues 11 [0, 2] [-1, 1], MatSetValue 11 5 0] (10, 0) = Some (-1)"
  by (simp add: MatAssembly_def MatCreate_def)


section \<open>Properties of the 2D and 3D builders\<close>

text \<open>
  Claim C1.  For every row of the 2D operator visited by the loops (row \<open>qStart + k\<close>
  for the \<open>k\<close>-th face), the count \<open>d_nnz[k] + o_nnz[k]\<close> left by pass 1 equals the
  number of matrix entries that pass 2 inserts for that row, which is two gradient
  entries plus one entry per body point that passes the proximity test.  This holds
  for every partition of the mesh and every set of body points, whatever the freshly
  allocated arrays contained, in every run in which no PETSc call reports an error
  and the count arrays have room for all the rows (both passes then return).
\<close>

theorem nnz_matches_insertions:
  assumes "petsc_ok petsc"
    and "length (faces s) \<le> length d_nnz" "length (faces s) \<le> length o_nnz"
  shows "\<exists>da oa calls.
           pass1 petsc s d_nnz o_nnz = Inr (length (faces s), da, oa) \<and>
           pass2 petsc s = Inr calls \<and>
           (\<forall>k < length (faces s).
              da ! k + oa ! k = int (inserted_in_row (int k + qStart s) calls) \<and>
              inserted_in_row (int k + qStart s) calls =
                2 + length (filter (in_support s (faces s ! k)) (body_points s)))"
proof -
  note ok = assms(1)
  obtain da oa where p1: "pass1 petsc s d_nnz o_nnz = Inr (length (faces s), da, oa)"
    using pass1_rows[OF ok assms(2,3)] by blast
  obtain calls where p2: "pass2 petsc s = Inr calls"
    using pass2_blocks[OF ok] by blast
  have "da ! k + oa ! k = int (inserted_in_row (int k + qStart s) calls)"
    if "k < length (faces s)" for k
    using pass1_Inr(2,3)[OF ok p1 that] row_nnz_total[of s "faces s ! k"]
      pass2_inserted[OF ok p2 that]
    by simp
  with p1 p2 pass2_inserted[OF ok p2] show ?thesis by blast
qed

theorem nnz_matches_insertions_witness:
  "length (faces example_solver) = 2 \<and>
   pass1 no_error example_solver [7, 7] [9, 9] = Inr (2, [3, 2], [0, 1]) \<and>
   (\<exists>calls. pass2 no_error example_solver = Inr calls \<and>
      inserted_in_row 10 calls = 3 \<and> inserted_in_row 11 calls = 3)"
proof -
  note ok = no_error_ok
  have len: "length (faces example_solver) \<le> length [7, 7 :: int]"
    "length (faces example_solver) \<le> length [9, 9 :: int]"
    by (simp_all add: example_faces)
  from nnz_matches_insertions[OF ok len] obtain da oa calls where
    p1: "pass1 no_error example_solver [7, 7] [9, 9] = Inr (length (faces example_solver), da, oa)"
    and p2: "pass2 no_error example_solver = Inr calls"
    and rows: "\<forall>k < length (faces example_solver).
       da ! k + oa ! k = int (inserted_in_row (int k + qStart example_solver) calls)"
    by blast
  from p1 have da: "da = [3, 2]" "oa = [0, 1]" by (simp_all add: example_pass1)
  from rows have
    "da ! 0 + oa ! 0 = int (inserted_in_row (int 0 + qStart example_solver) calls)"
    "da ! 1 + oa ! 1 = int (inserted_in_row (int 1 + qStart example_solver) calls)"
    by (simp_all add: example_faces)
  then have "inserted_in_row 10 calls = 3 \<and> inserted_in_row 11 calls = 3"
    by (simp add: da example_fields)
  with p2 show ?thesis
    by (auto simp: example_faces example_pass1)
qed


text \<open>
  Claim C2.  The claim says that the value written into a body-force column is exactly
  \<open>h * delta dx dy h\<close>.  The code stores the product in the \<^verbatim>\<open>PetscInt\<close> variable
  \<^verbatim>\<open>value\<close> first, so what reaches \<^verbatim>\<open>MatSetValue\<close> is the product with its fractional
  part dropped.  In the small solver state the body point 0 sits on the U face of row
  10 and passes the proximity test; \<open>h * delta 0 0 h\<close> is \<open>4/9\<close>, and the only
  body-force call for the row writes \<open>0\<close> into column 4.
\<close>

theorem body_value_truncated:
  "in_support example_solver (UFace 0 0) (0, 0) \<and>
   h_grid example_solver *
     delta (face_x example_solver (UFace 0 0) - x_body example_solver 0)
           (face_y example_solver (UFace 0 0) - y_body example_solver 0)
           (h_grid example_solver) = 4/9 \<and>
   pass2 no_error example_solver =
     Inr [MatSetValues 10 [0, 1] [-1, 1], MatSetValue 10 4 0,
          MatSetValues 11 [0, 2] [-1, 1], MatSetValue 11 5 0]"
  by (simp add: example_pass2 in_support_def example_fields
      delta_def dhRoma_def dhRoma_inner_def Let_def)


text \<open>
  Claim C3.  For every row of the 2D operator, whatever the mesh and the body points,
  the gradient part of pass 2 makes exactly one \<^verbatim>\<open>MatSetValues\<close> call for the row; it
  inserts exactly two entries, \<open>-1\<close> and \<open>+1\<close>, at the columns of the two pressure cells
  adjacent to the velocity face of the row (in every run in which no PETSc call
  reports an error).
\<close>

theorem gradient_entries:
  assumes "petsc_ok petsc" and "k < length (faces s)"
  shows "\<exists>calls. pass2 petsc s = Inr calls \<and>
           filter is_gradient_call (calls_of_row (int k + qStart s) calls) =
             [MatSetValues (int k + qStart s) (adjacent_cells s (faces s ! k)) [-1, 1]] \<and>
           length (adjacent_cells s (faces s ! k)) = 2 \<and>
           concat (map call_entries
                     (filter is_gradient_call (calls_of_row (int k + qStart s) calls))) =
             [(int k + qStart s, adjacent_cells s (faces s ! k) ! 0, -1),
              (int k + qStart s, adjacent_cells s (faces s ! k) ! 1, 1)]"
proof -
  note ok = assms(1)
  obtain calls where p2: "pass2 petsc s = Inr calls"
    using pass2_blocks[OF ok] by blast
  note g = pass2_gradient_calls[OF ok p2 assms(2)]
  obtain c0 c1 where c: "adjacent_cells s (faces s ! k) = [c0, c1]"
    by (cases "faces s ! k") simp_all
  have "concat (map call_entries
                     (filter is_gradient_call (calls_of_row (int k + qStart s) calls))) =
             [(int k + qStart s, adjacent_cells s (faces s ! k) ! 0, -1),
              (int k + qStart s, adjacent_cells s (faces s ! k) ! 1, 1)]"
    unfolding g by (simp add: c)
  with p2 g show ?thesis by (simp add: c)
qed

theorem gradient_entries_witness:
  "\<exists>calls. pass2 no_error example_solver = Inr calls \<and>
     filter is_gradient_call (calls_of_row 10 calls) = [MatSetValues 10 [0, 1] [-1, 1]] \<and>
     filter is_gradient_call (calls_of_row 11 calls) = [MatSetValues 11 [0, 2] [-1, 1]]"
proof -
  note ok = no_error_ok
  have k: "0 < length (faces example_solver)" "1 < length (faces example_solver)"
    by (simp_all add: example_faces)
  from gradient_entries[OF ok k(1)] gradient_entries[OF ok k(2)] show ?thesis
    by (auto simp: example_faces example_fields example_adjacent simp del: adjacent_cells.simps)
qed


text \<open>
  Claim C5.  The 3D specialisation of \<^verbatim>\<open>generateBNQ\<close> performs no operation: it returns
  the solver state it was given, with \<^verbatim>\<open>BNQ\<close>, \<^verbatim>\<open>QT\<close> and every other member unchanged.
\<close>

theorem generateBNQ3_noop:
  "generateBNQ3 s = s \<and> BNQ (generateBNQ3 s) = BNQ s \<and> QT (generateBNQ3 s) = QT s"
  by (simp add: generateBNQ3_def)


text \<open>
  Claim C6.  The 2D builder finalises in this order: it assembles \<^verbatim>\<open>BNQ\<close> from the calls
  of pass 2, then forms \<^verbatim>\<open>QT\<close> as the transpose of the assembled matrix, then scales the
  rows of \<^verbatim>\<open>BNQ\<close> by \<^verbatim>\<open>BN\<close>.  So \<^verbatim>\<open>QT\<close> is the transpose of the unscaled operator, and it
  differs from the transpose of the final \<^verbatim>\<open>BNQ\<close> as soon as the scaling changes one
  entry.  (The builder returns when no PETSc call reports an error and the count
  arrays have room for all the rows.)
\<close>

theorem finalize_order:
  assumes "petsc_ok petsc"
    and "length (faces s) \<le> nat (qEnd s - qStart s)"
  shows "\<exists>s' calls. generateBNQ2 petsc s junk_d junk_o = Inr s' \<and>
           pass2 petsc s = Inr calls \<and>
           QT s' = MatTranspose (MatAssembly calls) \<and>
           BNQ s' = MatDiagonalScale (MatAssembly calls) (BN s) \<and>
           (\<forall>r c. QT s' (c, r) = MatAssembly calls (r, c) \<and>
                  BNQ s' (r, c) = map_option (\<lambda>v. BN s r * v) (MatAssembly calls (r, c))) \<and>
           ((\<exists>r c v. MatAssembly calls (r, c) = Some v \<and> BN s r * v \<noteq> v) \<longrightarrow>
              QT s' \<noteq> MatTranspose (BNQ s'))"
proof -
  note ok = assms(1)
  define calls where "calls = block_calls s 0 (faces s)"
  define A where "A = MatAssembly calls"
  define s' where "s' = s\<lparr>BNQ := MatDiagonalScale A (BN s), QT := MatTranspose A\<rparr>"
  have p2: "pass2 petsc s = Inr calls"
    unfolding calls_def by (rule pass2_blocks[OF ok])
  have res: "generateBNQ2 petsc s junk_d junk_o = Inr s'"
    unfolding s'_def A_def calls_def by (rule generateBNQ2_result[OF ok assms(2)])
  have qt: "QT s' = MatTranspose A" and bnq: "BNQ s' = MatDiagonalScale A (BN s)"
    by (simp_all add: s'_def)
  have neq: "QT s' \<noteq> MatTranspose (BNQ s')" if "A (r, c) = Some v" "BN s r * v \<noteq> v" for r c v
  proof
    assume "QT s' = MatTranspose (BNQ s')"
    then have "QT s' (c, r) = MatTranspose (BNQ s') (c, r)" by simp
    with that show False
      by (simp add: qt bnq MatTranspose_def MatDiagonalScale_def)
  qed
  have "generateBNQ2 petsc s junk_d junk_o = Inr s' \<and>
           pass2 petsc s = Inr calls \<and>
           QT s' = MatTranspose A \<and>
           BNQ s' = MatDiagonalScale A (BN s) \<and>
           (\<forall>r c. QT s' (c, r) = A (r, c) \<and>
                  BNQ s' (r, c) = map_option (\<lambda>v. BN s r * v) (A (r, c))) \<and>
           ((\<exists>r c v. A (r, c) = Some v \<and> BN s r * v \<noteq> v) \<longrightarrow>
              QT s' \<noteq> MatTranspose (BNQ s'))"
    using res p2 qt bnq neq by (auto simp: MatTranspose_def MatDiagonalScale_def)
  then show ?thesis unfolding A_def by blast
qed

theorem finalize_order_witness:
  "\<exists>s'. generateBNQ2 no_error example_solver (\<lambda>_. 7) (\<lambda>_. 9) = Inr s' \<and>
      QT s' (0, 10) = Some (-1) \<and> BNQ s' (10, 0) = Some (-2) \<and>
      QT s' \<noteq> MatTranspose (BNQ s')"
proof -
  note ok = no_error_ok
  have len: "length (faces example_solver) \<le> nat (qEnd example_solver - qStart example_solver)"
    by (simp add: example_faces example_fields)
  have bn: "BN example_solver 10 = 2" by (simp add: example_fields)
  from finalize_order[OF ok len, of "\<lambda>_. 7" "\<lambda>_. 9"] obtain s' calls where
    s': "generateBNQ2 no_error example_solver (\<lambda>_. 7) (\<lambda>_. 9) = Inr s'"
      "pass2 no_error example_solver = Inr calls"
      "\<forall>r c. QT s' (c, r) = MatAssembly calls (r, c) \<and>
             BNQ s' (r, c) = map_option (\<lambda>v. BN example_solver r * v) (MatAssembly calls (r, c))"
      "(\<exists>r c v. MatAssembly calls (r, c) = Some v \<and> BN example_solver r * v \<noteq> v) \<longrightarrow>
              QT s' \<noteq> MatTranspose (BNQ s')"
    by blast
  from s'(2) have a: "MatAssembly calls (10, 0) = Some (-1)"
    using example_assembled by (simp add: example_pass2)
  then have "\<exists>r c v. MatAssembly calls (r, c) = Some v \<and> BN example_solver r * v \<noteq> v"
    using bn by (intro exI[of _ 10] exI[of _ 0] exI[of _ "-1"]) simp
  with s' a show ?thesis
    by (intro exI[of _ s']) (simp add: bn)
qed


text \<open>
  Claim C10.  For a body point \<open>l\<close> of process \<open>p\<close>, the body-force column used in every
  U row is \<open>bodyGlobalIndices l\<close>, and in every V row it is
  \<open>bodyGlobalIndices l + numBoundaryPointsOnProcess p\<close>.  Pass 2 writes the points in
  support to exactly these columns, and pass 1 classifies exactly these columns as
  local or remote when it counts (on top of what \<^verbatim>\<open>countNumNonZeros\<close> stored for the
  gradient part).  The two columns of one point differ whenever its process has at
  least one boundary point.  (Stated for the runs in which no PETSc call reports an
  error.)
\<close>

theorem body_force_columns:
  assumes "petsc_ok petsc" and "k < length (faces s)"
  shows "(\<exists>calls. pass2 petsc s = Inr calls \<and>
            map call_col (filter (\<lambda>c. \<not> is_gradient_call c)
                                 (calls_of_row (int k + qStart s) calls)) =
              map (\<lambda>pt. [body_col s (faces s ! k) pt])
                  (filter (in_support s (faces s ! k)) (body_points s))) \<and>
         (\<forall>kend da oa. pass1 petsc s d_nnz o_nnz = Inr (kend, da, oa) \<longrightarrow>
            da ! k =
              fst (countNumNonZeros (adjacent_cells s (faces s ! k)) 2 (lambdaStart s) (lambdaEnd s)) +
              int (length (filter (\<lambda>pt. owned s (body_col s (faces s ! k) pt))
                             (filter (in_support s (faces s ! k)) (body_points s)))) \<and>
            oa ! k =
              snd (countNumNonZeros (adjacent_cells s (faces s ! k)) 2 (lambdaStart s) (lambdaEnd s)) +
              int (length (filter (\<lambda>pt. \<not> owned s (body_col s (faces s ! k) pt))
                             (filter (in_support s (faces s ! k)) (body_points s))))) \<and>
         (\<forall>j i p l. body_col s (UFace j i) (p, l) = bodyGlobalIndices s l \<and>
                    body_col s (VFace j i) (p, l) =
                      bodyGlobalIndices s l + numBoundaryPointsOnProcess s p) \<and>
         (\<forall>j i j' i' p l. numBoundaryPointsOnProcess s p \<ge> 1 \<longrightarrow>
                    body_col s (UFace j i) (p, l) \<noteq> body_col s (VFace j' i') (p, l))"
proof -
  note ok = assms(1)
  obtain calls where p2: "pass2 petsc s = Inr calls"
    using pass2_blocks[OF ok] by blast
  have "map call_col (filter (\<lambda>c. \<not> is_gradient_call c)
                               (calls_of_row (int k + qStart s) calls)) =
           map (\<lambda>pt. [body_col s (faces s ! k) pt])
               (filter (in_support s (faces s ! k)) (body_points s))"
    unfolding pass2_body_calls[OF ok p2 assms(2)] by (simp add: call_col_body_call comp_def)
  with p2 have a: "\<exists>calls. pass2 petsc s = Inr calls \<and>
            map call_col (filter (\<lambda>c. \<not> is_gradient_call c)
                                 (calls_of_row (int k + qStart s) calls)) =
              map (\<lambda>pt. [body_col s (faces s ! k) pt])
                  (filter (in_support s (faces s ! k)) (body_points s))"
    by blast
  have b: "da ! k =
              fst (countNumNonZeros (adjacent_cells s (faces s ! k)) 2 (lambdaStart s) (lambdaEnd s)) +
              int (length (filter (\<lambda>pt. owned s (body_col s (faces s ! k) pt))
                             (filter (in_support s (faces s ! k)) (body_points s)))) \<and>
            oa ! k =
              snd (countNumNonZeros (adjacent_cells s (faces s ! k)) 2 (lambdaStart s) (lambdaEnd s)) +
              int (length (filter (\<lambda>pt. \<not> owned s (body_col s (faces s ! k) pt))
                             (filter (in_support s (faces s ! k)) (body_points s))))"
    if "pass1 petsc s d_nnz o_nnz = Inr (kend, da, oa)" for kend da oa
    using pass1_Inr(2,3)[OF ok that assms(2)] unfolding row_nnz_parts by blast
  show ?thesis using a b by simp
qed

theorem body_force_columns_witness:
  "(\<exists>calls. pass2 no_error example_solver = Inr calls \<and>
      map call_col (filter (\<lambda>c. \<not> is_gradient_call c) (calls_of_row 10 calls)) = [[4]] \<and>
      map call_col (filter (\<lambda>c. \<not> is_gradient_call c) (calls_of_row 11 calls)) = [[5]]) \<and>
   pass1 no_error example_solver [7, 7] [9, 9] = Inr (2, [3, 2], [0, 1]) \<and>
   numBoundaryPointsOnProcess example_solver 0 \<ge> 1 \<and>
   body_col example_solver (UFace 0 0) (0, 0) \<noteq> body_col example_solver (VFace 0 0) (0, 0)"
proof -
  note ok = no_error_ok
  have k: "0 < length (faces example_solver)" "1 < length (faces example_solver)"
    by (simp_all add: example_faces)
  have cols: "body_col example_solver (UFace 0 0) (0, 0) = 4"
    "body_col example_solver (VFace 0 0) (0, 0) = 5"
    by (simp_all add: example_fields)
  have nbp: "numBoundaryPointsOnProcess example_solver 0 \<ge> 1"
    by (simp add: example_fields)
  note U = body_force_columns[OF ok k(1), of "[7, 7]" "[9, 9]"]
  note V = body_force_columns[OF ok k(2), of "[7, 7]" "[9, 9]"]
  have "\<exists>calls. pass2 no_error example_solver = Inr calls \<and>
      map call_col (filter (\<lambda>c. \<not> is_gradient_call c) (calls_of_row 10 calls)) = [[4]] \<and>
      map call_col (filter (\<lambda>c. \<not> is_gradient_call c) (calls_of_row 11 calls)) = [[5]]"
    using U[THEN conjunct1] V[THEN conjunct1]
    by (auto simp: example_faces example_fields example_near cols simp del: body_col.simps)
  moreover
  have "body_col example_solver (UFace 0 0) (0, 0) \<noteq> body_col example_solver (VFace 0 0) (0, 0)"
    using U[THEN conjunct2, THEN conjunct2, THEN conjunct2] nbp by blast
  ultimately show ?thesis
    using example_pass1 nbp by simp
qed

end
